theory Spec2Isabelle
  imports Main "HOL-Library.Word"
begin

section \<open>libcpr: clone a file or a range of it, with a deep-copy fallback\<close>

text \<open>
  The library (\<^verbatim>\<open>libcpr.c\<close>) exports \<^verbatim>\<open>qtm_clone_file\<close> and
  \<^verbatim>\<open>qtm_clone_file_range\<close>. Both validate their arguments, attempt the
  FICLONE / FICLONERANGE ioctl and, when that fails and the caller asked for it, fall back to a
  block-wise \<^verbatim>\<open>lseek\<close>/\<^verbatim>\<open>read\<close>/\<^verbatim>\<open>write\<close> copy.

  The C functions are embedded as HOL functions that take the state of the world and return
  the C return value together with the new state. C types: \<^verbatim>\<open>int\<close> (file
  descriptors, return codes) and \<^verbatim>\<open>off_t\<close> are \<open>int\<close>; \<^verbatim>\<open>size_t\<close> is
  \<open>nat\<close> (the only \<^verbatim>\<open>size_t\<close> arithmetic of the library is \<^verbatim>\<open>MIN\<close> and
  \<^verbatim>\<open>remain -= read_now\<close> with \<open>read_now \<le> remain\<close>, which cannot wrap);
  \<^verbatim>\<open>uint8_t\<close> is an 8-bit word. The one narrowing conversion of the library,
  \<^verbatim>\<open>int rc = lseek(...)\<close>, is written out (\<open>to_int\<close>).
\<close>

subsection \<open>The environment: files, descriptors, errno\<close>

type_synonym byte = "8 word"

text \<open>Error numbers of \<^verbatim>\<open><errno.h>\<close> (Linux values); the header is not part of the
  repository. These are the codes the library's own documentation lists.\<close>

datatype err =
  EPERM | EINTR | EIO | ENXIO | EBADF | EAGAIN | ENOMEM | EFAULT | EXDEV | EISDIR
  | EINVAL | ETXTBSY | EFBIG | ENOSPC | ESPIPE | ERANGE | EOVERFLOW | EDESTADDRREQ
  | EOPNOTSUPP | EDQUOT

fun errno_val :: "err \<Rightarrow> int" where
  "errno_val EPERM = 1"
| "errno_val EINTR = 4"
| "errno_val EIO = 5"
| "errno_val ENXIO = 6"
| "errno_val EBADF = 9"
| "errno_val EAGAIN = 11"
| "errno_val ENOMEM = 12"
| "errno_val EFAULT = 14"
| "errno_val EXDEV = 18"
| "errno_val EISDIR = 21"
| "errno_val EINVAL = 22"
| "errno_val ETXTBSY = 26"
| "errno_val EFBIG = 27"
| "errno_val ENOSPC = 28"
| "errno_val ESPIPE = 29"
| "errno_val ERANGE = 34"
| "errno_val EOVERFLOW = 75"
| "errno_val EDESTADDRREQ = 89"
| "errno_val EOPNOTSUPP = 95"
| "errno_val EDQUOT = 122"

text \<open>An open file description: the file it is open on and its file offset.\<close>

record ofd =
  inode :: nat
  offs :: nat

text \<open>
  What the environment does to the next system call: nothing special, make it fail with an
  error number, or (for \<^verbatim>\<open>read\<close> and \<^verbatim>\<open>write\<close>) cut the transfer short to at most
  \<open>n + 1\<close> bytes.
\<close>

datatype event = Ideal | Fail err | Short nat

text \<open>The system and library calls the code makes, as recorded in the world's log.\<close>

datatype call =
  C_ficlone int int
  | C_ficlonerange int int int nat int
  | C_lseek int int
  | C_read int nat
  | C_write int nat
  | C_malloc nat
  | C_free

text \<open>
  The world: the contents of every file, the descriptor table, the descriptors that were
  opened with \<^verbatim>\<open>O_APPEND\<close>, \<^verbatim>\<open>errno\<close>, the finite
  list of events the environment still has in store (one is consumed by each call; when the
  list is exhausted every call behaves ideally), and the log of the calls made so far.
\<close>

record world =
  files :: "nat \<Rightarrow> byte list"
  fdtab :: "int \<Rightarrow> ofd option"
  o_append :: "int \<Rightarrow> bool"
  errno :: int
  faults :: "event list"
  calls :: "call list"

definition pending :: "world \<Rightarrow> event" where
  "pending w = (case faults w of [] \<Rightarrow> Ideal | e # _ \<Rightarrow> e)"

definition tick :: "call \<Rightarrow> world \<Rightarrow> world" where
  "tick c w = w\<lparr>faults := tl (faults w), calls := calls w @ [c]\<rparr>"

definition limit :: "event \<Rightarrow> nat \<Rightarrow> nat" where
  "limit ev n = (case ev of Short k \<Rightarrow> min (Suc k) n | _ \<Rightarrow> n)"

text \<open>Overwriting a file's bytes at an offset; a write past the end leaves a hole of zeros,
  and writing no bytes changes nothing.\<close>

definition store_at :: "nat \<Rightarrow> byte list \<Rightarrow> byte list \<Rightarrow> byte list" where
  "store_at p bs d =
     (if bs = [] then d
      else take p d @ replicate (p - length d) 0 @ bs @ drop (p + length bs) d)"

text \<open>\<^verbatim>\<open>lseek(fd, offset, SEEK_SET)\<close>: the new offset, or \<open>-1\<close> with \<^verbatim>\<open>errno\<close> set.\<close>

definition sys_lseek :: "int \<Rightarrow> int \<Rightarrow> world \<Rightarrow> int \<times> world" where
  "sys_lseek fd offset w =
     (let w0 = tick (C_lseek fd offset) w in
      case pending w of
        Fail e \<Rightarrow> (- 1, w0\<lparr>errno := errno_val e\<rparr>)
      | _ \<Rightarrow>
        (case fdtab w fd of
           None \<Rightarrow> (- 1, w0\<lparr>errno := errno_val EBADF\<rparr>)
         | Some d \<Rightarrow>
             if offset < 0 then (- 1, w0\<lparr>errno := errno_val EINVAL\<rparr>)
             else (offset, w0\<lparr>fdtab := (fdtab w0)(fd \<mapsto> d\<lparr>offs := nat offset\<rparr>)\<rparr>)))"

text \<open>
  \<^verbatim>\<open>read(fd, buf, n)\<close>: the number of bytes read and the bytes placed in the buffer, or
  \<open>-1\<close> with \<^verbatim>\<open>errno\<close> set. On a regular file it returns 0 only at end of file (or for
  \<open>n = 0\<close>); it may return fewer bytes than asked for.
\<close>

definition sys_read :: "int \<Rightarrow> nat \<Rightarrow> world \<Rightarrow> (int \<times> byte list) \<times> world" where
  "sys_read fd n w =
     (let w0 = tick (C_read fd n) w in
      case pending w of
        Fail e \<Rightarrow> ((- 1, []), w0\<lparr>errno := errno_val e\<rparr>)
      | ev \<Rightarrow>
        (case fdtab w fd of
           None \<Rightarrow> ((- 1, []), w0\<lparr>errno := errno_val EBADF\<rparr>)
         | Some d \<Rightarrow>
             let avail = drop (offs d) (files w (inode d));
                 got = take (limit ev n) avail
             in ((int (length got), got),
                 w0\<lparr>fdtab := (fdtab w0)(fd \<mapsto> d\<lparr>offs := offs d + length got\<rparr>)\<rparr>)))"

text \<open>Where the next \<^verbatim>\<open>write\<close> on a descriptor puts its bytes: at the descriptor's
  file offset, or at the end of the file when the descriptor was opened with
  \<^verbatim>\<open>O_APPEND\<close>, whatever \<^verbatim>\<open>lseek\<close> set.\<close>

definition write_pos :: "world \<Rightarrow> int \<Rightarrow> ofd \<Rightarrow> nat" where
  "write_pos w fd d = (if o_append w fd then length (files w (inode d)) else offs d)"

text \<open>
  \<^verbatim>\<open>write(fd, buf, n)\<close> with the \<open>n\<close> bytes \<open>buf\<close>: the number of bytes written (at least
  one for a non-empty buffer, possibly fewer than \<open>n\<close>), or \<open>-1\<close> with \<^verbatim>\<open>errno\<close> set.
  The file offset ends up after the bytes written.
\<close>

definition sys_write :: "int \<Rightarrow> byte list \<Rightarrow> world \<Rightarrow> int \<times> world" where
  "sys_write fd buf w =
     (let w0 = tick (C_write fd (length buf)) w in
      case pending w of
        Fail e \<Rightarrow> (- 1, w0\<lparr>errno := errno_val e\<rparr>)
      | ev \<Rightarrow>
        (case fdtab w fd of
           None \<Rightarrow> (- 1, w0\<lparr>errno := errno_val EBADF\<rparr>)
         | Some d \<Rightarrow>
             let chunk = take (limit ev (length buf)) buf;
                 pos = write_pos w fd d
             in (int (length chunk),
                 w0\<lparr>files := (files w0)(inode d := store_at pos chunk (files w (inode d))),
                    fdtab := (fdtab w0)(fd \<mapsto> d\<lparr>offs := pos + length chunk\<rparr>)\<rparr>)))"

text \<open>\<^verbatim>\<open>malloc(n)\<close>: whether a buffer was obtained. \<^verbatim>\<open>free\<close> only shows in the log.\<close>

definition sys_malloc :: "nat \<Rightarrow> world \<Rightarrow> bool \<times> world" where
  "sys_malloc n w =
     (let w0 = tick (C_malloc n) w in
      case pending w of
        Fail e \<Rightarrow> (False, w0\<lparr>errno := errno_val ENOMEM\<rparr>)
      | _ \<Rightarrow> (True, w0))"

definition sys_free :: "world \<Rightarrow> world" where
  "sys_free w = w\<lparr>calls := calls w @ [C_free]\<rparr>"

text \<open>
  \<^verbatim>\<open>ioctl(dst_fd, FICLONE, src_fd)\<close> and \<^verbatim>\<open>ioctl(dst_fd, FICLONERANGE, &range)\<close>: 0 when the
  file system shares the extents (the destination range then reads as the source range; a
  length of 0 means up to the source's end of file), \<open>-1\<close> with \<^verbatim>\<open>errno\<close> set otherwise.
\<close>

definition sys_ficlonerange :: "int \<Rightarrow> int \<Rightarrow> int \<Rightarrow> nat \<Rightarrow> int \<Rightarrow> world \<Rightarrow> int \<times> world" where
  "sys_ficlonerange dst_fd src_fd src_offset src_length dest_offset w =
     (let w0 = tick (C_ficlonerange dst_fd src_fd src_offset src_length dest_offset) w in
      case pending w of
        Fail e \<Rightarrow> (- 1, w0\<lparr>errno := errno_val e\<rparr>)
      | _ \<Rightarrow>
        (case (fdtab w src_fd, fdtab w dst_fd) of
           (Some s, Some d) \<Rightarrow>
             let src = files w (inode s) in
             if src_offset < 0 \<or> dest_offset < 0 \<or> length src < nat src_offset + src_length
             then (- 1, w0\<lparr>errno := errno_val EINVAL\<rparr>)
             else
               let bytes = (if src_length = 0 then drop (nat src_offset) src
                            else take src_length (drop (nat src_offset) src))
               in (0, w0\<lparr>files := (files w0)(inode d :=
                                  store_at (nat dest_offset) bytes (files w (inode d)))\<rparr>)
         | _ \<Rightarrow> (- 1, w0\<lparr>errno := errno_val EBADF\<rparr>)))"

definition sys_ficlone :: "int \<Rightarrow> int \<Rightarrow> world \<Rightarrow> int \<times> world" where
  "sys_ficlone dst_fd src_fd w =
     (let w0 = tick (C_ficlone dst_fd src_fd) w in
      case pending w of
        Fail e \<Rightarrow> (- 1, w0\<lparr>errno := errno_val e\<rparr>)
      | _ \<Rightarrow>
        (case (fdtab w src_fd, fdtab w dst_fd) of
           (Some s, Some d) \<Rightarrow>
             (0, w0\<lparr>files := (files w0)(inode d :=
                              store_at 0 (files w (inode s)) (files w (inode d)))\<rparr>)
         | _ \<Rightarrow> (- 1, w0\<lparr>errno := errno_val EBADF\<rparr>)))"

subsection \<open>The library\<close>

text \<open>The conversion of an \<^verbatim>\<open>off_t\<close> (64 bits) to \<^verbatim>\<open>int\<close> (32 bits), as gcc does it.\<close>

definition to_int :: "int \<Rightarrow> int" where
  "to_int x = sint (word_of_int x :: 32 word)"

text \<open>\<^verbatim>\<open>clone_file_range_impl\<close> and \<^verbatim>\<open>clone_file_impl\<close>: the ioctl, with a negative result
  replaced by \<^verbatim>\<open>errno\<close>.\<close>

definition clone_file_range_impl :: "int \<Rightarrow> int \<Rightarrow> int \<Rightarrow> int \<Rightarrow> nat \<Rightarrow> world \<Rightarrow> int \<times> world" where
  "clone_file_range_impl src_fd dst_fd src_offset dst_offset len w =
     (let (rc, w1) = sys_ficlonerange dst_fd src_fd src_offset len dst_offset w
      in if rc < 0 then (errno w1, w1) else (rc, w1))"

definition clone_file_impl :: "int \<Rightarrow> int \<Rightarrow> world \<Rightarrow> int \<times> world" where
  "clone_file_impl src_fd dst_fd w =
     (let (rc, w1) = sys_ficlone dst_fd src_fd w
      in if rc < 0 then (errno w1, w1) else (rc, w1))"

text \<open>\<^verbatim>\<open>seek_file\<close>: the result of \<^verbatim>\<open>lseek\<close> is stored in an \<^verbatim>\<open>int\<close>; \<open>-1\<close> becomes
  \<^verbatim>\<open>errno\<close>, a positive value becomes 0, anything else is returned as it is.\<close>

definition seek_file :: "int \<Rightarrow> int \<Rightarrow> world \<Rightarrow> int \<times> world" where
  "seek_file fd offset w =
     (let (r, w1) = sys_lseek fd offset w;
          rc = to_int r
      in if rc = - 1 then (errno w1, w1)
         else if rc > 0 then (0, w1)
         else (rc, w1))"

text \<open>\<^verbatim>\<open>write_block\<close>: write the block, retrying after \<^verbatim>\<open>EINTR\<close> and continuing after a
  partial write, until all of it is written or another error occurs.\<close>

function write_block :: "int \<Rightarrow> byte list \<Rightarrow> world \<Rightarrow> int \<times> world" where
  "write_block fd p_block w =
     (if length p_block > 0 then
        (let (wrote_now, w1) = sys_write fd p_block w in
         if wrote_now < 0 then
           (if errno w1 = errno_val EINTR then write_block fd p_block w1 else (errno w1, w1))
         else write_block fd (drop (nat wrote_now) p_block) w1)
      else (0, w))"
  by pat_completeness auto
termination
  apply (relation "measure (\<lambda>(fd, p_block, w). length (faults w) + length p_block)")
    apply simp
   apply (auto simp: sys_write_def Let_def tick_def pending_def limit_def
               split: list.splits event.splits option.splits if_splits)
  done

text \<open>
  One pass through the body of the \<^verbatim>\<open>while (remain > 0)\<close> loop of
  \<^verbatim>\<open>deep_copy_file_range_impl\<close>: it either leaves the loop (\<^verbatim>\<open>break\<close>) with the
  return code, or goes round again with the new \<^verbatim>\<open>remain\<close> and \<^verbatim>\<open>rc\<close>.
\<close>

datatype iter = Break int world | Continue nat int world

definition copy_iter :: "int \<Rightarrow> int \<Rightarrow> nat \<Rightarrow> nat \<Rightarrow> nat \<Rightarrow> int \<Rightarrow> world \<Rightarrow> iter" where
  "copy_iter src_fd dst_fd len block_size remain rc w =
     (let read_max = min block_size remain;
          ((read_now, p_block), w1) = sys_read src_fd read_max w
      in if read_now < 0 then
           (if errno w1 = errno_val EINTR then Continue remain rc w1
            else Break (errno w1) w1)
         else if read_now = 0 \<and> len = 0 then Break rc w1
         else if read_now = 0 \<and> remain \<noteq> 0 then Break (errno_val ERANGE) w1
         else
           (let (rc', w2) = write_block dst_fd p_block w1
            in if rc' \<noteq> 0 then Break rc' w2
               else Continue (if len \<noteq> 0 then remain - nat read_now else remain) rc' w2))"

text \<open>The loop itself. Nothing in the code bounds the number of passes, so a run that
  never leaves the loop is the value \<open>None\<close>.\<close>

partial_function (option) copy_loop ::
  "int \<Rightarrow> int \<Rightarrow> nat \<Rightarrow> nat \<Rightarrow> nat \<Rightarrow> int \<Rightarrow> world \<Rightarrow> (int \<times> world) option" where
  "copy_loop src_fd dst_fd len block_size remain rc w =
     (if remain > 0 then
        (case copy_iter src_fd dst_fd len block_size remain rc w of
           Break rc' w' \<Rightarrow> Some (rc', w')
         | Continue remain' rc' w' \<Rightarrow> copy_loop src_fd dst_fd len block_size remain' rc' w')
      else Some (rc, w))"

declare copy_loop.simps [code]

text \<open>\<^verbatim>\<open>deep_copy_file_range_impl\<close>: seek both descriptors, allocate the block, run the
  loop, free the block.\<close>

definition deep_copy_file_range_impl ::
  "int \<Rightarrow> int \<Rightarrow> int \<Rightarrow> int \<Rightarrow> nat \<Rightarrow> nat \<Rightarrow> world \<Rightarrow> (int \<times> world) option" where
  "deep_copy_file_range_impl src_fd dst_fd src_offset dst_offset len block_size w =
     (let (rc, w1) = seek_file src_fd src_offset w;
          (rc, w2) = (if rc = 0 then seek_file dst_fd dst_offset w1 else (rc, w1))
      in if rc \<noteq> 0 then Some (rc, w2)
         else
           (let (p_block, w3) = sys_malloc block_size w2
            in if \<not> p_block then Some (errno_val ENOMEM, w3)
               else
                 (case copy_loop src_fd dst_fd len block_size
                         (if len \<noteq> 0 then len else block_size) rc w3 of
                    None \<Rightarrow> None
                  | Some (rc', w4) \<Rightarrow> Some (rc', sys_free w4))))"

text \<open>The two exported functions.\<close>

definition qtm_clone_file :: "int \<Rightarrow> int \<Rightarrow> bool \<Rightarrow> nat \<Rightarrow> world \<Rightarrow> (int \<times> world) option" where
  "qtm_clone_file src_fd dst_fd fallback_copy fallback_copy_block_size w =
     (if src_fd < 0 \<or> dst_fd < 0 \<or> (fallback_copy \<and> fallback_copy_block_size = 0)
      then Some (errno_val EINVAL, w)
      else
        (let (rc, w1) = clone_file_impl src_fd dst_fd w
         in if rc \<noteq> 0 \<and> fallback_copy
            then deep_copy_file_range_impl src_fd dst_fd 0 0 0 fallback_copy_block_size w1
            else Some (rc, w1)))"

definition qtm_clone_file_range ::
  "int \<Rightarrow> int \<Rightarrow> int \<Rightarrow> int \<Rightarrow> nat \<Rightarrow> bool \<Rightarrow> nat \<Rightarrow> world \<Rightarrow> (int \<times> world) option" where
  "qtm_clone_file_range src_fd dst_fd src_offset dst_offset len fallback_copy
       fallback_copy_block_size w =
     (if src_fd < 0 \<or> dst_fd < 0 \<or> src_offset < 0 \<or> dst_offset < 0
         \<or> (fallback_copy \<and> fallback_copy_block_size = 0)
      then Some (errno_val EINVAL, w)
      else
        (let (rc, w1) = clone_file_range_impl src_fd dst_fd src_offset dst_offset len w
         in if rc \<noteq> 0 \<and> fallback_copy
            then deep_copy_file_range_impl src_fd dst_fd src_offset dst_offset len
                   fallback_copy_block_size w1
            else Some (rc, w1)))"

text \<open>A small world for the examples: the source file (inode 1) is open as descriptor 3, the
  destination file (inode 2) as descriptor 4, both at offset 0 and neither with
  \<^verbatim>\<open>O_APPEND\<close>.\<close>

definition ex_world :: "byte list \<Rightarrow> byte list \<Rightarrow> event list \<Rightarrow> world" where
  "ex_world src dst evs =
     \<lparr>files = (\<lambda>k. if k = 1 then src else if k = 2 then dst else []),
      fdtab = (\<lambda>fd. if fd = 3 then Some \<lparr>inode = 1, offs = 0\<rparr>
                    else if fd = 4 then Some \<lparr>inode = 2, offs = 0\<rparr> else None),
      o_append = (\<lambda>fd. False),
      errno = 0, faults = evs, calls = []\<rparr>"



text \<open>The state of the world when the loop returns, relative to the state \<open>w\<close> in which it
  started with the descriptors at \<open>so\<close> and \<open>dd\<close>: \<open>n\<close> bytes of the source have reached
  the destination file, \<open>n'\<close> have been read. Used in the proofs below.\<close>

definition loop_post ::
  "int \<Rightarrow> int \<Rightarrow> ofd \<Rightarrow> ofd \<Rightarrow> nat \<Rightarrow> nat \<Rightarrow> world \<Rightarrow> int \<Rightarrow> world \<Rightarrow> nat \<Rightarrow> nat \<Rightarrow> bool" where
  "loop_post sfd dfd so dd len remain w r w' n n' \<longleftrightarrow>
     files w' = (files w)(inode dd :=
        store_at (write_pos w dfd dd) (take n (drop (offs so) (files w (inode so))))
          (files w (inode dd)))
   \<and> fdtab w' = (fdtab w)(sfd \<mapsto> so\<lparr>offs := offs so + n'\<rparr>,
                           dfd \<mapsto> dd\<lparr>offs := (if n = 0 then offs dd else write_pos w dfd dd + n)\<rparr>)
   \<and> o_append w' = o_append w
   \<and> n \<le> n' \<and> n' \<le> length (files w (inode so)) - offs so
   \<and> (\<exists>j. faults w' = drop j (faults w))
   \<and> (r = 0 \<longrightarrow> n' = n \<and>
         (if len = 0 then remain = 0 \<or> length (files w (inode so)) \<le> offs so + n
          else n = remain))
   \<and> (r \<noteq> 0 \<longrightarrow>
         (r = errno_val ERANGE \<and> len \<noteq> 0 \<and> length (files w (inode so)) - offs so < remain)
       \<or> (\<exists>e. e \<noteq> EINTR \<and> Fail e \<in> set (faults w) \<and> r = errno_val e))"

text \<open>The same for a whole run of \<^verbatim>\<open>deep_copy_file_range_impl\<close> from the state \<open>w\<close>, with
  the ways in which it can fail. Used in the proofs below.\<close>

definition deep_post ::
  "int \<Rightarrow> int \<Rightarrow> ofd \<Rightarrow> ofd \<Rightarrow> int \<Rightarrow> int \<Rightarrow> nat \<Rightarrow> world \<Rightarrow> int \<Rightarrow> world \<Rightarrow> bool" where
  "deep_post sfd dfd so dd soff doff len w r w' \<longleftrightarrow>
     (\<forall>k. k \<noteq> inode dd \<longrightarrow> files w' k = files w k)
   \<and> (\<forall>fd. fd \<noteq> sfd \<longrightarrow> fd \<noteq> dfd \<longrightarrow> fdtab w' fd = fdtab w fd)
   \<and> (\<exists>a. fdtab w' sfd = Some (so\<lparr>offs := a\<rparr>))
   \<and> (\<exists>b. fdtab w' dfd = Some (dd\<lparr>offs := b\<rparr>))
   \<and> (\<exists>n. files w' (inode dd)
             = store_at (if o_append w dfd then length (files w (inode dd)) else nat doff)
                 (take n (drop (nat soff) (files w (inode so)))) (files w (inode dd))
         \<and> n \<le> length (files w (inode so)) - nat soff
         \<and> (r = 0 \<longrightarrow> 0 \<le> soff \<and> 0 \<le> doff
               \<and> fdtab w' sfd = Some (so\<lparr>offs := nat soff + n\<rparr>)
               \<and> fdtab w' dfd = Some (dd\<lparr>offs :=
                    (if o_append w dfd \<and> 0 < n then length (files w (inode dd)) else nat doff) + n\<rparr>)
               \<and> (if len = 0 then n = length (files w (inode so)) - nat soff else n = len)))
   \<and> (r \<noteq> 0 \<longrightarrow>
         r = fst (seek_file sfd soff w)
       \<or> (\<exists>w1. seek_file sfd soff w = (0, w1) \<and> r = fst (seek_file dfd doff w1))
       \<or> (r = errno_val ENOMEM \<and> (\<exists>e. Fail e \<in> set (faults w)))
       \<or> (r = errno_val ERANGE \<and> len \<noteq> 0 \<and> length (files w (inode so)) - nat soff < len)
       \<or> (\<exists>e. e \<noteq> EINTR \<and> Fail e \<in> set (faults w) \<and> r = errno_val e))"


section \<open>Verification\<close>

declare write_block.simps [simp del]

subsection \<open>Facts about the environment\<close>

lemma errno_val_pos: "0 < errno_val e"
  by (cases e) simp_all

lemma errno_val_eq_EINTR: "errno_val e = 4 \<longleftrightarrow> e = EINTR"
  by (cases e) simp_all

lemma map_upd_same: "f x = Some d \<Longrightarrow> f(x \<mapsto> d) = f"
  by auto

lemma tick_simps:
  "files (tick c w) = files w"
  "fdtab (tick c w) = fdtab w"
  "o_append (tick c w) = o_append w"
  "errno (tick c w) = errno w"
  "faults (tick c w) = tl (faults w)"
  "calls (tick c w) = calls w @ [c]"
  by (simp_all add: tick_def)

lemma pending_Fail_ne: "pending w = Fail e \<Longrightarrow> faults w \<noteq> []"
  by (cases "faults w") (simp_all add: pending_def)

lemma pending_Fail_mem: "pending w = Fail e \<Longrightarrow> Fail e \<in> set (faults w)"
  by (cases "faults w") (simp_all add: pending_def)

lemma tl_is_drop: "\<exists>j. tl xs = drop j xs"
  by (rule exI [of _ 1]) (simp add: drop_Suc)

lemma set_tl_subset: "set (tl xs) \<subseteq> set xs"
  by (cases xs) auto

lemma limit_le: "limit ev n \<le> n"
  by (cases ev) (simp_all add: limit_def)

lemma limit_pos: "0 < n \<Longrightarrow> 0 < limit ev n"
  by (cases ev) (simp_all add: limit_def)

lemma length_store_at:
  "length (store_at p bs d) = (if bs = [] then length d else max (length d) (p + length bs))"
  by (auto simp: store_at_def)

lemma store_at_Nil: "store_at p [] d = d"
  by (simp add: store_at_def)

lemma take_len_app: "length xs = p \<Longrightarrow> take (p + n) (xs @ ys) = xs @ take n ys"
  by simp

lemma drop_len_app: "length xs = p \<Longrightarrow> drop (p + n) (xs @ ys) = drop n ys"
  by simp

lemma store_at_append:
  "store_at (p + length a) b (store_at p a d) = store_at p (a @ b) d"
proof (cases "a = [] \<or> b = []")
  case True
  then show ?thesis by (auto simp: store_at_Nil)
next
  case False
  then have a: "a \<noteq> []" and b: "b \<noteq> []" by simp_all
  define pre where "pre = take p d @ replicate (p - length d) 0"
  have pre: "length pre = p" by (simp add: pre_def)
  have sa: "store_at p a d = pre @ a @ drop (p + length a) d"
    using a by (simp add: store_at_def pre_def)
  have l: "p + length a \<le> length (store_at p a d)"
    using a by (simp add: length_store_at)
  have t: "take (p + length a) (store_at p a d) = pre @ a"
    unfolding sa by (simp add: pre)
  have "drop (p + (length a + length b)) (store_at p a d)
      = drop (length a + length b) (a @ drop (p + length a) d)"
    unfolding sa by (rule drop_len_app [OF pre])
  also have "\<dots> = drop (length b) (drop (p + length a) d)"
    by simp
  also have "\<dots> = drop (p + (length a + length b)) d"
    by (simp add: add.commute add.left_commute)
  finally have dr: "drop (p + (length a + length b)) (store_at p a d)
      = drop (p + (length a + length b)) d" .
  have "store_at (p + length a) b (store_at p a d)
      = (pre @ a) @ replicate 0 0 @ b @ drop (p + (length a + length b)) d"
    using b l t dr by (simp add: store_at_def [of "p + length a"] add.assoc)
  also have "\<dots> = store_at p (a @ b) d"
    using a by (simp add: store_at_def [of p "a @ b"] pre_def)
  finally show ?thesis .
qed



text \<open>After a write of at least one byte the next write continues where this one ended, in
  either mode.\<close>

lemma write_pos_after:
  assumes "bs \<noteq> []" and "o_append w1 = o_append w"
    and "files w1 (inode d) = store_at (write_pos w fd d) bs (files w (inode d))"
  shows "write_pos w1 fd (d\<lparr>offs := write_pos w fd d + length bs\<rparr>)
         = write_pos w fd d + length bs"
  using assms by (simp add: write_pos_def length_store_at)



subsection \<open>System calls and \<open>write_block\<close>\<close>

lemma sys_write_Fail:
  "pending w = Fail e \<Longrightarrow>
   sys_write fd buf w = (- 1, (tick (C_write fd (length buf)) w)\<lparr>errno := errno_val e\<rparr>)"
  by (simp add: sys_write_def)

lemma sys_write_ok:
  assumes "fdtab w fd = Some d" and "\<forall>e. pending w \<noteq> Fail e"
  shows "sys_write fd buf w =
     (int (limit (pending w) (length buf)),
      (tick (C_write fd (length buf)) w)
        \<lparr>files := (files w)(inode d :=
             store_at (write_pos w fd d) (take (limit (pending w) (length buf)) buf)
               (files w (inode d))),
         fdtab := (fdtab w)(fd \<mapsto>
             d\<lparr>offs := write_pos w fd d + limit (pending w) (length buf)\<rparr>)\<rparr>)"
proof -
  have "min (length buf) (limit (pending w) (length buf)) = limit (pending w) (length buf)"
    using limit_le [of "pending w" "length buf"] by simp
  then show ?thesis
    using assms by (cases "pending w") (simp_all add: sys_write_def Let_def tick_simps)
qed

lemma sys_write_badf:
  assumes "fdtab w fd = None" and "\<forall>e. pending w \<noteq> Fail e"
  shows "sys_write fd buf w = (- 1, (tick (C_write fd (length buf)) w)\<lparr>errno := errno_val EBADF\<rparr>)"
  using assms by (cases "pending w") (simp_all add: sys_write_def Let_def)

lemma sys_read_Fail:
  "pending w = Fail e \<Longrightarrow>
   sys_read fd n w = ((- 1, []), (tick (C_read fd n) w)\<lparr>errno := errno_val e\<rparr>)"
  by (simp add: sys_read_def)

lemma sys_read_ok:
  assumes "fdtab w fd = Some d" and "\<forall>e. pending w \<noteq> Fail e"
  shows "sys_read fd n w =
     ((int (length (take (limit (pending w) n) (drop (offs d) (files w (inode d))))),
       take (limit (pending w) n) (drop (offs d) (files w (inode d)))),
      (tick (C_read fd n) w)
        \<lparr>fdtab := (fdtab w)(fd \<mapsto> d\<lparr>offs := offs d +
             length (take (limit (pending w) n) (drop (offs d) (files w (inode d))))\<rparr>)\<rparr>)"
  using assms by (cases "pending w") (simp_all add: sys_read_def Let_def tick_simps)

lemma write_block_Nil: "write_block fd [] w = (0, w)"
  by (simp add: write_block.simps)

lemma write_block_intr:
  assumes "blk \<noteq> []" and "pending w = Fail EINTR"
  shows "write_block fd blk w =
         write_block fd blk ((tick (C_write fd (length blk)) w)\<lparr>errno := errno_val EINTR\<rparr>)"
  using assms by (subst write_block.simps) (simp add: sys_write_Fail)

lemma write_block_err:
  assumes "blk \<noteq> []" and "pending w = Fail e" and "e \<noteq> EINTR"
  shows "write_block fd blk w =
         (errno_val e, (tick (C_write fd (length blk)) w)\<lparr>errno := errno_val e\<rparr>)"
  using assms by (subst write_block.simps) (simp add: sys_write_Fail errno_val_eq_EINTR)

lemma write_block_badf:
  assumes "blk \<noteq> []" and "fdtab w fd = None" and "\<forall>e. pending w \<noteq> Fail e"
  shows "write_block fd blk w =
         (errno_val EBADF, (tick (C_write fd (length blk)) w)\<lparr>errno := errno_val EBADF\<rparr>)"
  using assms by (subst write_block.simps) (simp add: sys_write_badf)

lemma write_block_ok:
  assumes "blk \<noteq> []" and "fdtab w fd = Some d" and "\<forall>e. pending w \<noteq> Fail e"
  shows "write_block fd blk w =
         write_block fd (drop (limit (pending w) (length blk)) blk)
           ((tick (C_write fd (length blk)) w)
              \<lparr>files := (files w)(inode d :=
                   store_at (write_pos w fd d) (take (limit (pending w) (length blk)) blk)
                     (files w (inode d))),
               fdtab := (fdtab w)(fd \<mapsto>
                   d\<lparr>offs := write_pos w fd d + limit (pending w) (length blk)\<rparr>)\<rparr>)"
  using assms by (subst write_block.simps) (simp add: sys_write_ok)

text \<open>What \<open>write_block\<close> does to the world when the descriptor is open.\<close>

lemma write_block_effect:
  assumes "fdtab w fd = Some d"
  shows "\<exists>m. m \<le> length blk
     \<and> files (snd (write_block fd blk w))
         = (files w)(inode d := store_at (write_pos w fd d) (take m blk) (files w (inode d)))
     \<and> fdtab (snd (write_block fd blk w))
         = (fdtab w)(fd \<mapsto> d\<lparr>offs := (if m = 0 then offs d else write_pos w fd d + m)\<rparr>)
     \<and> o_append (snd (write_block fd blk w)) = o_append w
     \<and> (\<exists>j. faults (snd (write_block fd blk w)) = drop j (faults w))
     \<and> (fst (write_block fd blk w) = 0 \<longrightarrow> m = length blk)
     \<and> (fst (write_block fd blk w) \<noteq> 0 \<longrightarrow>
           (\<exists>e. e \<noteq> EINTR \<and> Fail e \<in> set (faults w) \<and> fst (write_block fd blk w) = errno_val e))"
  using assms
proof (induction "length (faults w) + length blk" arbitrary: w blk d rule: less_induct)
  case less
  show ?case
  proof (cases "blk = []")
    case True
    then show ?thesis
      using less.prems
      by (intro exI [of _ 0]) (auto simp: write_block_Nil store_at_Nil map_upd_same intro: exI [of _ 0])
  next
    case ne: False
    show ?thesis
    proof (cases "\<exists>e. pending w = Fail e")
      case True
      then obtain e where e: "pending w = Fail e" ..
      have fne: "faults w \<noteq> []"
        by (rule pending_Fail_ne [OF e])
      show ?thesis
      proof (cases "e = EINTR")
        case False
        have mem: "Fail e \<in> set (faults w)"
          by (rule pending_Fail_mem [OF e])
        show ?thesis
          using less.prems False mem errno_val_pos [of e]
          by (intro exI [of _ 0])
             (auto simp: write_block_err [OF ne e False] store_at_Nil tick_simps map_upd_same
                         tl_is_drop)
      next
        case True
        let ?w1 = "(tick (C_write fd (length blk)) w)\<lparr>errno := errno_val EINTR\<rparr>"
        have wb: "write_block fd blk w = write_block fd blk ?w1"
          using e True by (simp add: write_block_intr [OF ne])
        have m: "length (faults ?w1) + length blk < length (faults w) + length blk"
          using fne by (simp add: tick_simps)
        have "fdtab ?w1 fd = Some d"
          using less.prems by (simp add: tick_simps)
        from less.hyps [OF m this] obtain k where k:
          "k \<le> length blk"
          "files (snd (write_block fd blk ?w1))
             = (files ?w1)(inode d := store_at (write_pos ?w1 fd d) (take k blk) (files ?w1 (inode d)))"
          "fdtab (snd (write_block fd blk ?w1))
             = (fdtab ?w1)(fd \<mapsto> d\<lparr>offs := (if k = 0 then offs d else write_pos ?w1 fd d + k)\<rparr>)"
          "o_append (snd (write_block fd blk ?w1)) = o_append ?w1"
          "\<exists>j. faults (snd (write_block fd blk ?w1)) = drop j (faults ?w1)"
          "fst (write_block fd blk ?w1) = 0 \<longrightarrow> k = length blk"
          "fst (write_block fd blk ?w1) \<noteq> 0 \<longrightarrow>
             (\<exists>e. e \<noteq> EINTR \<and> Fail e \<in> set (faults ?w1) \<and> fst (write_block fd blk ?w1) = errno_val e)"
          by blast
        have wp: "write_pos ?w1 fd d = write_pos w fd d"
          by (simp add: write_pos_def tick_simps)
        have sub: "set (faults ?w1) \<subseteq> set (faults w)"
          by (simp add: tick_simps set_tl_subset)
        from k(5) obtain j where "faults (snd (write_block fd blk ?w1)) = drop j (tl (faults w))"
          by (auto simp: tick_simps)
        then have j: "\<exists>j. faults (snd (write_block fd blk ?w1)) = drop j (faults w)"
          by (intro exI [of _ "Suc j"]) (simp add: drop_Suc)
        have f: "files (snd (write_block fd blk ?w1))
             = (files w)(inode d := store_at (write_pos w fd d) (take k blk) (files w (inode d)))"
          unfolding k(2) wp by (simp add: tick_simps)
        have t: "fdtab (snd (write_block fd blk ?w1))
             = (fdtab w)(fd \<mapsto> d\<lparr>offs := (if k = 0 then offs d else write_pos w fd d + k)\<rparr>)"
          unfolding k(3) wp by (simp add: tick_simps)
        have a: "o_append (snd (write_block fd blk ?w1)) = o_append w"
          unfolding k(4) by (simp add: tick_simps)
        show ?thesis
          unfolding wb using k(1,6,7) sub j f t a
          by (intro exI [of _ k]) auto
      qed
    next
      case False
      then have nf: "\<forall>e. pending w \<noteq> Fail e" by simp
      define c where "c = limit (pending w) (length blk)"
      have c: "0 < c" "c \<le> length blk"
        using ne limit_pos [of "length blk" "pending w"] limit_le [of "pending w" "length blk"]
        by (simp_all add: c_def)
      define P where "P = write_pos w fd d"
      define d1 where "d1 = d\<lparr>offs := P + c\<rparr>"
      define w1 where "w1 = (tick (C_write fd (length blk)) w)
              \<lparr>files := (files w)(inode d := store_at P (take c blk) (files w (inode d))),
               fdtab := (fdtab w)(fd \<mapsto> d1)\<rparr>"
      have wb: "write_block fd blk w = write_block fd (drop c blk) w1"
        using write_block_ok [OF ne less.prems nf] by (simp add: c_def w1_def d1_def P_def)
      have m: "length (faults w1) + length (drop c blk) < length (faults w) + length blk"
        using c by (simp add: w1_def tick_simps)
      have fd1: "fdtab w1 fd = Some d1"
        by (simp add: w1_def)
      have lc: "length (take c blk) = c"
        using c by simp
      have tne: "take c blk \<noteq> []"
        using c ne by (cases blk) auto
      have "write_pos w1 fd (d\<lparr>offs := write_pos w fd d + length (take c blk)\<rparr>)
            = write_pos w fd d + length (take c blk)"
        by (rule write_pos_after [OF tne]) (simp_all add: w1_def tick_simps P_def)
      then have wp1: "write_pos w1 fd d1 = P + c"
        unfolding lc by (simp add: d1_def P_def)
      from less.hyps [OF m fd1] obtain k where k:
        "k \<le> length (drop c blk)"
        "files (snd (write_block fd (drop c blk) w1))
           = (files w1)(inode d1 := store_at (write_pos w1 fd d1) (take k (drop c blk)) (files w1 (inode d1)))"
        "fdtab (snd (write_block fd (drop c blk) w1))
           = (fdtab w1)(fd \<mapsto> d1\<lparr>offs := (if k = 0 then offs d1 else write_pos w1 fd d1 + k)\<rparr>)"
        "o_append (snd (write_block fd (drop c blk) w1)) = o_append w1"
        "\<exists>j. faults (snd (write_block fd (drop c blk) w1)) = drop j (faults w1)"
        "fst (write_block fd (drop c blk) w1) = 0 \<longrightarrow> k = length (drop c blk)"
        "fst (write_block fd (drop c blk) w1) \<noteq> 0 \<longrightarrow>
           (\<exists>e. e \<noteq> EINTR \<and> Fail e \<in> set (faults w1) \<and>
                fst (write_block fd (drop c blk) w1) = errno_val e)"
        by blast
      have tk: "take c blk @ take k (drop c blk) = take (c + k) blk"
        by (simp add: take_add)
      have st: "store_at (P + c) (take k (drop c blk)) (store_at P (take c blk) (files w (inode d)))
              = store_at P (take (c + k) blk) (files w (inode d))"
        using store_at_append [of P "take c blk" "take k (drop c blk)" "files w (inode d)"]
        unfolding lc tk .
      have sub: "set (faults w1) \<subseteq> set (faults w)"
        by (simp add: w1_def tick_simps set_tl_subset)
      have f: "files (snd (write_block fd (drop c blk) w1))
           = (files w)(inode d := store_at P (take (c + k) blk) (files w (inode d)))"
        unfolding k(2) wp1 using st by (simp add: w1_def d1_def tick_simps)
      have t: "fdtab (snd (write_block fd (drop c blk) w1))
           = (fdtab w)(fd \<mapsto> d\<lparr>offs := P + (c + k)\<rparr>)"
        unfolding k(3) wp1 by (simp add: w1_def d1_def tick_simps add.assoc)
      have a: "o_append (snd (write_block fd (drop c blk) w1)) = o_append w"
        unfolding k(4) by (simp add: w1_def tick_simps)
      from k(5) obtain j where "faults (snd (write_block fd (drop c blk) w1)) = drop j (tl (faults w))"
        by (auto simp: w1_def tick_simps)
      then have l: "\<exists>j. faults (snd (write_block fd (drop c blk) w1)) = drop j (faults w)"
        by (intro exI [of _ "Suc j"]) (simp add: drop_Suc)
      have ck: "c + k \<noteq> 0"
        using c by simp
      show ?thesis
        unfolding wb using k(1,6,7) c f t a l sub ck
        unfolding P_def
        by (intro exI [of _ "c + k"]) auto
    qed
  qed
qed

subsection \<open>One pass through the loop\<close>

lemma sys_read_badf:
  assumes "fdtab w fd = None" and "\<forall>e. pending w \<noteq> Fail e"
  shows "sys_read fd n w = ((- 1, []), (tick (C_read fd n) w)\<lparr>errno := errno_val EBADF\<rparr>)"
  using assms by (cases "pending w") (simp_all add: sys_read_def Let_def)

lemma copy_iter_intr:
  assumes "pending w = Fail EINTR"
  shows "copy_iter sfd dfd len bs remain rc w =
         Continue remain rc ((tick (C_read sfd (min bs remain)) w)\<lparr>errno := errno_val EINTR\<rparr>)"
  using assms by (simp add: copy_iter_def sys_read_Fail)

lemma copy_iter_err:
  assumes "pending w = Fail e" and "e \<noteq> EINTR"
  shows "copy_iter sfd dfd len bs remain rc w =
         Break (errno_val e) ((tick (C_read sfd (min bs remain)) w)\<lparr>errno := errno_val e\<rparr>)"
  using assms by (simp add: copy_iter_def sys_read_Fail errno_val_eq_EINTR)

lemma copy_iter_badf:
  assumes "fdtab w sfd = None" and "\<forall>e. pending w \<noteq> Fail e"
  shows "copy_iter sfd dfd len bs remain rc w =
         Break (errno_val EBADF) ((tick (C_read sfd (min bs remain)) w)\<lparr>errno := errno_val EBADF\<rparr>)"
  using assms by (simp add: copy_iter_def sys_read_badf)

lemma copy_iter_read:
  assumes "sys_read sfd (min bs remain) w = ((k, got), w1)"
  shows "copy_iter sfd dfd len bs remain rc w =
     (if k < 0 then
        (if errno w1 = errno_val EINTR then Continue remain rc w1 else Break (errno w1) w1)
      else if k = 0 \<and> len = 0 then Break rc w1
      else if k = 0 \<and> remain \<noteq> 0 then Break (errno_val ERANGE) w1
      else if fst (write_block dfd got w1) \<noteq> 0
           then Break (fst (write_block dfd got w1)) (snd (write_block dfd got w1))
           else Continue (if len \<noteq> 0 then remain - nat k else remain)
                  (fst (write_block dfd got w1)) (snd (write_block dfd got w1)))"
  unfolding copy_iter_def Let_def assms split_beta fst_conv snd_conv
  by (rule refl)

lemma copy_iter_eof:
  assumes "fdtab w sfd = Some so" and "\<forall>e. pending w \<noteq> Fail e"
    and "take (limit (pending w) (min bs remain)) (drop (offs so) (files w (inode so))) = []"
    and "0 < remain"
  shows "copy_iter sfd dfd len bs remain rc w =
         Break (if len = 0 then rc else errno_val ERANGE) (tick (C_read sfd (min bs remain)) w)"
proof -
  have w: "(tick (C_read sfd (min bs remain)) w)\<lparr>fdtab := (fdtab w)(sfd \<mapsto> so\<lparr>offs := offs so + 0\<rparr>)\<rparr>
      = tick (C_read sfd (min bs remain)) w"
    using assms(1) by (simp add: tick_def map_upd_same)
  have "sys_read sfd (min bs remain) w = ((0, []), tick (C_read sfd (min bs remain)) w)"
    unfolding sys_read_ok [OF assms(1,2)] assms(3) using w by simp
  from copy_iter_read [OF this] show ?thesis
    using assms(4) by simp
qed

lemma copy_iter_data:
  assumes "fdtab w sfd = Some so" and "\<forall>e. pending w \<noteq> Fail e"
    and "got = take (limit (pending w) (min bs remain)) (drop (offs so) (files w (inode so)))"
    and "got \<noteq> []"
    and "w1 = (tick (C_read sfd (min bs remain)) w)
                \<lparr>fdtab := (fdtab w)(sfd \<mapsto> so\<lparr>offs := offs so + length got\<rparr>)\<rparr>"
  shows "copy_iter sfd dfd len bs remain rc w =
         (if fst (write_block dfd got w1) \<noteq> 0
          then Break (fst (write_block dfd got w1)) (snd (write_block dfd got w1))
          else Continue (if len \<noteq> 0 then remain - length got else remain) 0
                 (snd (write_block dfd got w1)))"
proof -
  have "sys_read sfd (min bs remain) w = ((int (length got), got), w1)"
    unfolding sys_read_ok [OF assms(1,2)] assms(3) [symmetric] assms(5) by (rule refl)
  from copy_iter_read [OF this] show ?thesis
    using assms(4) by simp
qed

lemma copy_loop_0: "copy_loop sfd dfd len bs 0 rc w = Some (rc, w)"
  by (simp add: copy_loop.simps)

lemma copy_loop_step:
  "0 < remain \<Longrightarrow> copy_loop sfd dfd len bs remain rc w =
     (case copy_iter sfd dfd len bs remain rc w of
        Break rc' w' \<Rightarrow> Some (rc', w')
      | Continue remain' rc' w' \<Rightarrow> copy_loop sfd dfd len bs remain' rc' w')"
  by (subst copy_loop.simps) simp

subsection \<open>The loop\<close>

lemma drop_of_drop: "\<exists>j. ys = drop j xs \<Longrightarrow> \<exists>j. zs = drop j ys \<Longrightarrow> \<exists>j. zs = drop j xs"
  by (metis drop_drop)

lemma set_of_drop: "\<exists>j. ys = drop j xs \<Longrightarrow> x \<in> set ys \<Longrightarrow> x \<in> set xs"
  by (metis in_set_dropD)

lemma loop_post_stop:
  assumes "fdtab w sfd = Some so" and "fdtab w dfd = Some dd"
    and "files w1 = files w" and "fdtab w1 = fdtab w" and "\<exists>j. faults w1 = drop j (faults w)"
    and "r = 0 \<longrightarrow> (if len = 0 then remain = 0 \<or> length (files w (inode so)) \<le> offs so
                     else remain = 0)"
    and "r \<noteq> 0 \<longrightarrow>
         (r = errno_val ERANGE \<and> len \<noteq> 0 \<and> length (files w (inode so)) - offs so < remain)
       \<or> (\<exists>e. e \<noteq> EINTR \<and> Fail e \<in> set (faults w) \<and> r = errno_val e)"
    and "o_append w1 = o_append w"
  shows "loop_post sfd dfd so dd len remain w r w1 0 0"
proof -
  have "(fdtab w)(sfd \<mapsto> so, dfd \<mapsto> dd) = fdtab w"
    using assms(1,2) by (simp add: map_upd_same)
  then show ?thesis
    unfolding loop_post_def using assms(3-8) by (simp add: store_at_Nil)
qed

lemma loop_post_retry:
  assumes "loop_post sfd dfd so dd len remain w1 r w' n n'"
    and "files w1 = files w" and "fdtab w1 = fdtab w" and "\<exists>j. faults w1 = drop j (faults w)"
    and "o_append w1 = o_append w"
  shows "loop_post sfd dfd so dd len remain w r w' n n'"
proof -
  have a: "\<exists>j. faults w' = drop j (faults w)"
    using assms(1,4) unfolding loop_post_def by (blast intro: drop_of_drop)
  have b: "\<And>e. Fail e \<in> set (faults w1) \<Longrightarrow> Fail e \<in> set (faults w)"
    using assms(4) by (blast intro: set_of_drop)
  have wp: "write_pos w1 dfd dd = write_pos w dfd dd"
    by (simp add: write_pos_def assms(2,5))
  show ?thesis
    using assms(1) a b unfolding loop_post_def assms(2,3,5) wp by blast
qed


lemma take_take_le: "m \<le> length (take L xs) \<Longrightarrow> take m (take L xs) = take m xs"
  by (simp add: min_def split: if_splits)

lemma take_length_take: "take (length (take L xs)) xs = take L xs"
  by (simp add: min_def)

lemma loop_post_wfail:
  assumes "got = take L (drop (offs so) (files w (inode so)))"
    and "m \<le> length got"
    and "files w2 = (files w)(inode dd :=
           store_at (write_pos w dfd dd) (take m got) (files w (inode dd)))"
    and "fdtab w2 = (fdtab w)(sfd \<mapsto> so\<lparr>offs := offs so + length got\<rparr>,
           dfd \<mapsto> dd\<lparr>offs := (if m = 0 then offs dd else write_pos w dfd dd + m)\<rparr>)"
    and "\<exists>j. faults w2 = drop j (faults w)"
    and "e \<noteq> EINTR" and "Fail e \<in> set (faults w)" and "r = errno_val e"
    and "o_append w2 = o_append w"
  shows "loop_post sfd dfd so dd len remain w r w2 m (length got)"
proof -
  have t: "take m got = take m (drop (offs so) (files w (inode so)))"
    using assms(2) unfolding assms(1) by (rule take_take_le)
  have l: "length got \<le> length (files w (inode so)) - offs so"
    unfolding assms(1) by simp
  have r: "r \<noteq> 0"
    using errno_val_pos [of e] assms(8) by simp
  show ?thesis
    unfolding loop_post_def using assms(2-9) t l r by auto
qed

lemma loop_post_cont:
  assumes ne: "inode so \<noteq> inode dd"
    and got: "got = take L (drop (offs so) (files w (inode so)))"
    and g: "g = length got" and gpos: "0 < g"
    and le: "len \<noteq> 0 \<longrightarrow> g \<le> remain"
    and f2: "files w2 = (files w)(inode dd :=
               store_at (write_pos w dfd dd) got (files w (inode dd)))"
    and t2: "fdtab w2 = (fdtab w)(sfd \<mapsto> so\<lparr>offs := offs so + g\<rparr>,
                              dfd \<mapsto> dd\<lparr>offs := write_pos w dfd dd + g\<rparr>)"
    and a2: "o_append w2 = o_append w"
    and j2: "\<exists>j. faults w2 = drop j (faults w)"
    and post: "loop_post sfd dfd (so\<lparr>offs := offs so + g\<rparr>) (dd\<lparr>offs := write_pos w dfd dd + g\<rparr>)
                 len (if len \<noteq> 0 then remain - g else remain) w2 r w' n2 n2'"
  shows "loop_post sfd dfd so dd len remain w r w' (g + n2) (g + n2')"
proof -
  let ?S = "files w (inode so)" and ?D = "files w (inode dd)"
  let ?p = "offs so" and ?q = "write_pos w dfd dd"
  have S2: "files w2 (inode so) = ?S"
    using ne by (simp add: f2)
  have D2: "files w2 (inode dd) = store_at ?q got ?D"
    by (simp add: f2)
  have gne: "got \<noteq> []"
    using gpos g by auto
  have wp2: "write_pos w2 dfd (dd\<lparr>offs := ?q + g\<rparr>) = ?q + g"
    unfolding g by (rule write_pos_after [OF gne a2 D2])
  have gl: "g \<le> length ?S - ?p"
    unfolding g got by simp
  have tg: "take g (drop ?p ?S) = got"
    unfolding g got by (rule take_length_take)
  have cat: "got @ take n2 (drop (?p + g) ?S) = take (g + n2) (drop ?p ?S)"
    by (simp add: take_add tg add.commute)
  have st: "store_at (?q + g) (take n2 (drop (?p + g) ?S)) (store_at ?q got ?D)
          = store_at ?q (take (g + n2) (drop ?p ?S)) ?D"
    using store_at_append [of ?q got "take n2 (drop (?p + g) ?S)" ?D]
    unfolding g [symmetric] cat .
  from post have "files w' = (files w2)(inode dd :=
        store_at (write_pos w2 dfd (dd\<lparr>offs := ?q + g\<rparr>)) (take n2 (drop (?p + g) ?S))
          (store_at ?q got ?D))"
    unfolding loop_post_def by (simp add: S2 D2)
  then have p1: "files w' = (files w2)(inode dd :=
        store_at (?q + g) (take n2 (drop (?p + g) ?S)) (store_at ?q got ?D))"
    unfolding wp2 .
  have F: "files w' = (files w)(inode dd := store_at ?q (take (g + n2) (drop ?p ?S)) ?D)"
    unfolding p1 st by (simp add: f2)
  from post have "fdtab w' = (fdtab w2)(sfd \<mapsto> so\<lparr>offs := ?p + g + n2'\<rparr>,
        dfd \<mapsto> dd\<lparr>offs := (if n2 = 0 then ?q + g
                            else write_pos w2 dfd (dd\<lparr>offs := ?q + g\<rparr>) + n2)\<rparr>)"
    unfolding loop_post_def by simp
  then have p2: "fdtab w' = (fdtab w2)(sfd \<mapsto> so\<lparr>offs := ?p + g + n2'\<rparr>,
                                             dfd \<mapsto> dd\<lparr>offs := ?q + g + n2\<rparr>)"
    unfolding wp2 by (cases "n2 = 0") simp_all
  have "fdtab w' = (fdtab w)(sfd \<mapsto> so\<lparr>offs := ?p + (g + n2')\<rparr>,
                                dfd \<mapsto> dd\<lparr>offs := ?q + (g + n2)\<rparr>)"
    unfolding p2 t2 by (auto simp: fun_eq_iff add.assoc)
  then have T: "fdtab w' = (fdtab w)(sfd \<mapsto> so\<lparr>offs := ?p + (g + n2')\<rparr>,
        dfd \<mapsto> dd\<lparr>offs := (if g + n2 = 0 then offs dd else ?q + (g + n2))\<rparr>)"
    using gpos by simp
  from post have "o_append w' = o_append w2"
    unfolding loop_post_def by simp
  then have A: "o_append w' = o_append w"
    unfolding a2 .
  from post have p3: "n2 \<le> n2'" "n2' \<le> length ?S - (?p + g)"
    unfolding loop_post_def by (simp_all add: S2)
  have N: "g + n2 \<le> g + n2'" "g + n2' \<le> length ?S - ?p"
    using p3 gl by simp_all
  from post have "\<exists>j. faults w' = drop j (faults w2)"
    unfolding loop_post_def by simp
  with j2 have J: "\<exists>j. faults w' = drop j (faults w)"
    by (rule drop_of_drop)
  from post have p5: "r = 0 \<longrightarrow> n2' = n2 \<and>
         (if len = 0 then remain = 0 \<or> length ?S \<le> ?p + g + n2 else n2 = remain - g)"
    unfolding loop_post_def by (auto simp: S2 split: if_splits)
  have Z: "r = 0 \<longrightarrow> g + n2' = g + n2 \<and>
         (if len = 0 then remain = 0 \<or> length ?S \<le> ?p + (g + n2) else g + n2 = remain)"
    using p5 le by (auto simp: add.assoc)
  from post have p6: "r \<noteq> 0 \<longrightarrow>
         (r = errno_val ERANGE \<and> len \<noteq> 0 \<and> length ?S - (?p + g) < remain - g)
       \<or> (\<exists>e. e \<noteq> EINTR \<and> Fail e \<in> set (faults w2) \<and> r = errno_val e)"
    unfolding loop_post_def by (auto simp: S2 split: if_splits)
  have sub: "\<And>e. Fail e \<in> set (faults w2) \<Longrightarrow> Fail e \<in> set (faults w)"
    using j2 by (blast intro: set_of_drop)
  have E: "r \<noteq> 0 \<longrightarrow>
         (r = errno_val ERANGE \<and> len \<noteq> 0 \<and> length ?S - ?p < remain)
       \<or> (\<exists>e. e \<noteq> EINTR \<and> Fail e \<in> set (faults w) \<and> r = errno_val e)"
  proof
    assume "r \<noteq> 0"
    with p6 consider "r = errno_val ERANGE" "len \<noteq> 0" "length ?S - (?p + g) < remain - g"
      | e where "e \<noteq> EINTR" "Fail e \<in> set (faults w2)" "r = errno_val e"
      by blast
    then show "(r = errno_val ERANGE \<and> len \<noteq> 0 \<and> length ?S - ?p < remain)
       \<or> (\<exists>e. e \<noteq> EINTR \<and> Fail e \<in> set (faults w) \<and> r = errno_val e)"
    proof cases
      case 1
      then have "length ?S - ?p < remain"
        using gl le by arith
      with 1 show ?thesis by blast
    next
      case 2
      then show ?thesis using sub by blast
    qed
  qed
  show ?thesis
    unfolding loop_post_def using F T A N J Z E by blast
qed

text \<open>The loop returns, whatever the environment does, when the source and the destination
  are different files; and this is the state it returns in.\<close>

lemma copy_loop_effect:
  assumes "fdtab w sfd = Some so" and "fdtab w dfd = Some dd" and "inode so \<noteq> inode dd"
    and "0 < bs"
  shows "\<exists>r w' n n'. copy_loop sfd dfd len bs remain 0 w = Some (r, w')
           \<and> loop_post sfd dfd so dd len remain w r w' n n'"
  using assms(1-3)
proof (induction "length (faults w) + (length (files w (inode so)) - offs so)"
        arbitrary: w so dd remain rule: less_induct)
  case less
  note so = less.prems(1) and dd = less.prems(2) and ne = less.prems(3)
  have fdne: "sfd \<noteq> dfd"
    using so dd ne by auto
  show ?case
  proof (cases "remain = 0")
    case True
    have "loop_post sfd dfd so dd len remain w 0 w 0 0"
      using True by (intro loop_post_stop [OF so dd]) (auto intro: exI [of _ 0])
    then show ?thesis
      using True by (auto simp: copy_loop_0)
  next
    case False
    then have rem: "0 < remain" by simp
    define c where "c = C_read sfd (min bs remain)"
    show ?thesis
    proof (cases "\<exists>e. pending w = Fail e")
      case True
      then obtain e where e: "pending w = Fail e" ..
      have fne: "faults w \<noteq> []"
        by (rule pending_Fail_ne [OF e])
      have mem: "Fail e \<in> set (faults w)"
        by (rule pending_Fail_mem [OF e])
      define w1 where "w1 = (tick c w)\<lparr>errno := errno_val e\<rparr>"
      have w1: "files w1 = files w" "fdtab w1 = fdtab w" "faults w1 = tl (faults w)"
        "o_append w1 = o_append w"
        by (simp_all add: w1_def tick_simps)
      have j1: "\<exists>j. faults w1 = drop j (faults w)"
        unfolding w1(3) by (rule tl_is_drop)
      show ?thesis
      proof (cases "e = EINTR")
        case True
        have step: "copy_loop sfd dfd len bs remain 0 w = copy_loop sfd dfd len bs remain 0 w1"
          using e True
          by (simp add: copy_loop_step [OF rem] copy_iter_intr w1_def c_def)
        have m: "length (faults w1) + (length (files w1 (inode so)) - offs so)
               < length (faults w) + (length (files w (inode so)) - offs so)"
          using fne by (simp add: w1)
        have "\<exists>r w' n n'. copy_loop sfd dfd len bs remain 0 w1 = Some (r, w')
               \<and> loop_post sfd dfd so dd len remain w1 r w' n n'"
          using so dd ne by (intro less.hyps [OF m]) (simp_all add: w1)
        then obtain r w' n n' where
          "copy_loop sfd dfd len bs remain 0 w1 = Some (r, w')"
          "loop_post sfd dfd so dd len remain w1 r w' n n'"
          by blast
        then show ?thesis
          unfolding step using loop_post_retry [OF _ w1(1,2) j1 w1(4)] by blast
      next
        case False
        have step: "copy_loop sfd dfd len bs remain 0 w = Some (errno_val e, w1)"
          using e False
          by (simp add: copy_loop_step [OF rem] copy_iter_err w1_def c_def)
        have "loop_post sfd dfd so dd len remain w (errno_val e) w1 0 0"
          using False mem errno_val_pos [of e] w1(4)
          by (intro loop_post_stop [OF so dd w1(1,2) j1]) auto
        then show ?thesis
          unfolding step by blast
      qed
    next
      case False
      then have nf: "\<forall>e. pending w \<noteq> Fail e" by simp
      define L where "L = limit (pending w) (min bs remain)"
      define got where "got = take L (drop (offs so) (files w (inode so)))"
      have Lpos: "0 < L" and Lle: "L \<le> remain"
        using limit_pos [of "min bs remain" "pending w"] limit_le [of "pending w" "min bs remain"]
          rem assms(4) by (simp_all add: L_def)
      show ?thesis
      proof (cases "got = []")
        case True
        define w1 where "w1 = tick c w"
        have w1: "files w1 = files w" "fdtab w1 = fdtab w" "faults w1 = tl (faults w)"
          "o_append w1 = o_append w"
          by (simp_all add: w1_def tick_simps)
        have j1: "\<exists>j. faults w1 = drop j (faults w)"
          unfolding w1(3) by (rule tl_is_drop)
        have eof: "length (files w (inode so)) \<le> offs so"
          using True Lpos by (simp add: got_def)
        have step: "copy_loop sfd dfd len bs remain 0 w
              = Some (if len = 0 then 0 else errno_val ERANGE, w1)"
          using copy_iter_eof [OF so nf _ rem, of bs dfd len 0] True
          by (simp add: copy_loop_step [OF rem] got_def L_def w1_def c_def)
        have "loop_post sfd dfd so dd len remain w (if len = 0 then 0 else errno_val ERANGE) w1 0 0"
          using eof rem w1(4) by (intro loop_post_stop [OF so dd w1(1,2) j1]) auto
        then show ?thesis
          unfolding step by blast
      next
        case gne: False
        define g where "g = length got"
        have gpos: "0 < g" using gne by (simp add: g_def)
        have gle: "g \<le> remain" using Lle by (simp add: g_def got_def)
        have gav: "g \<le> length (files w (inode so)) - offs so"
          by (simp add: g_def got_def)
        define P where "P = write_pos w dfd dd"
        define so1 where "so1 = so\<lparr>offs := offs so + g\<rparr>"
        define w1 where "w1 = (tick c w)\<lparr>fdtab := (fdtab w)(sfd \<mapsto> so1)\<rparr>"
        have w1: "files w1 = files w" "faults w1 = tl (faults w)" "fdtab w1 dfd = Some dd"
          "fdtab w1 = (fdtab w)(sfd \<mapsto> so1)" "o_append w1 = o_append w"
          using fdne dd by (simp_all add: w1_def tick_simps)
        have wp1: "write_pos w1 dfd dd = P"
          by (simp add: write_pos_def w1 P_def)
        define rc' where "rc' = fst (write_block dfd got w1)"
        define w2 where "w2 = snd (write_block dfd got w1)"
        have iter: "copy_iter sfd dfd len bs remain 0 w =
             (if rc' \<noteq> 0 then Break rc' w2
              else Continue (if len \<noteq> 0 then remain - g else remain) 0 w2)"
          using copy_iter_data [OF so nf _ gne, of bs remain w1 dfd len 0]
          by (simp add: got_def L_def w1_def so1_def g_def c_def rc'_def w2_def)
        from write_block_effect [OF w1(3), of got] obtain m where m:
          "m \<le> length got"
          "files w2 = (files w1)(inode dd := store_at P (take m got) (files w1 (inode dd)))"
          "fdtab w2 = (fdtab w1)(dfd \<mapsto> dd\<lparr>offs := (if m = 0 then offs dd else P + m)\<rparr>)"
          "o_append w2 = o_append w1"
          "\<exists>j. faults w2 = drop j (faults w1)"
          "rc' = 0 \<longrightarrow> m = length got"
          "rc' \<noteq> 0 \<longrightarrow> (\<exists>e. e \<noteq> EINTR \<and> Fail e \<in> set (faults w1) \<and> rc' = errno_val e)"
          unfolding rc'_def w2_def wp1 by blast
        have j1: "\<exists>j. faults w1 = drop j (faults w)"
          unfolding w1(2) by (rule tl_is_drop)
        have j2: "\<exists>j. faults w2 = drop j (faults w)"
          using j1 m(5) by (rule drop_of_drop)
        have a2: "o_append w2 = o_append w"
          using m(4) by (simp add: w1)
        have f2: "files w2 = (files w)(inode dd := store_at P (take m got) (files w (inode dd)))"
          using m(2) by (simp add: w1)
        have t2: "fdtab w2 = (fdtab w)(sfd \<mapsto> so\<lparr>offs := offs so + length got\<rparr>,
                      dfd \<mapsto> dd\<lparr>offs := (if m = 0 then offs dd else P + m)\<rparr>)"
          using m(3) by (simp add: w1 so1_def g_def)
        show ?thesis
        proof (cases "rc' = 0")
          case False
          with m(7) obtain e where e: "e \<noteq> EINTR" "Fail e \<in> set (faults w1)" "rc' = errno_val e"
            by blast
          have mem: "Fail e \<in> set (faults w)"
            using j1 e(2) by (rule set_of_drop)
          have step: "copy_loop sfd dfd len bs remain 0 w = Some (rc', w2)"
            using False by (simp add: copy_loop_step [OF rem] iter)
          have "loop_post sfd dfd so dd len remain w rc' w2 m (length got)"
            using got_def m(1) f2 [unfolded P_def] t2 [unfolded P_def] j2 e(1) mem e(3) a2
            by (rule loop_post_wfail)
          then show ?thesis
            unfolding step by blast
        next
          case True
          with m(6) have mg: "m = g" by (simp add: g_def)
          define dd1 where "dd1 = dd\<lparr>offs := P + g\<rparr>"
          define remain' where "remain' = (if len \<noteq> 0 then remain - g else remain)"
          have step: "copy_loop sfd dfd len bs remain 0 w = copy_loop sfd dfd len bs remain' 0 w2"
            using True by (simp add: copy_loop_step [OF rem] iter remain'_def)
          have f2': "files w2 = (files w)(inode dd := store_at P got (files w (inode dd)))"
            using f2 mg by (simp add: g_def)
          have t2': "fdtab w2 = (fdtab w)(sfd \<mapsto> so1, dfd \<mapsto> dd1)"
            using t2 mg gpos by (simp add: g_def so1_def dd1_def)
          have s2: "fdtab w2 sfd = Some so1" and d2: "fdtab w2 dfd = Some dd1"
            using fdne by (simp_all add: t2')
          have ne2: "inode so1 \<noteq> inode dd1"
            using ne by (simp add: so1_def dd1_def)
          have S2: "files w2 (inode so1) = files w (inode so)"
            using ne by (simp add: f2' so1_def)
          have lf: "length (faults w2) \<le> length (faults w)"
            using j2 by auto
          have meas: "length (faults w2) + (length (files w2 (inode so1)) - offs so1)
               < length (faults w) + (length (files w (inode so)) - offs so)"
            unfolding S2 using lf gpos gav by (simp add: so1_def)
          from less.hyps [OF meas s2 d2 ne2, of remain'] obtain r w' n2 n2' where res:
            "copy_loop sfd dfd len bs remain' 0 w2 = Some (r, w')"
            "loop_post sfd dfd so1 dd1 len remain' w2 r w' n2 n2'"
            by blast
          have "loop_post sfd dfd so dd len remain w r w' (g + n2) (g + n2')"
            using ne got_def g_def gpos _ f2' [unfolded P_def] _ a2 j2
          proof (rule loop_post_cont)
            show "len \<noteq> 0 \<longrightarrow> g \<le> remain" using gle by simp
            show "fdtab w2 = (fdtab w)(sfd \<mapsto> so\<lparr>offs := offs so + g\<rparr>,
                                       dfd \<mapsto> dd\<lparr>offs := write_pos w dfd dd + g\<rparr>)"
              using t2' by (simp add: so1_def dd1_def P_def)
            show "loop_post sfd dfd (so\<lparr>offs := offs so + g\<rparr>)
                    (dd\<lparr>offs := write_pos w dfd dd + g\<rparr>) len
                    (if len \<noteq> 0 then remain - g else remain) w2 r w' n2 n2'"
              using res(2) by (simp add: so1_def dd1_def remain'_def P_def)
          qed
          then show ?thesis
            unfolding step using res(1) by blast
        qed
      qed
    qed
  qed
qed

subsection \<open>Seeking\<close>

lemma to_int_minus1: "to_int (- 1) = - 1"
  by (simp add: to_int_def)


lemma sys_lseek_Fail:
  "pending w = Fail e \<Longrightarrow>
   sys_lseek fd off w = (- 1, (tick (C_lseek fd off) w)\<lparr>errno := errno_val e\<rparr>)"
  by (simp add: sys_lseek_def)

lemma sys_lseek_ok:
  assumes "fdtab w fd = Some d" and "\<forall>e. pending w \<noteq> Fail e" and "0 \<le> off"
  shows "sys_lseek fd off w =
     (off, (tick (C_lseek fd off) w)\<lparr>fdtab := (fdtab w)(fd \<mapsto> d\<lparr>offs := nat off\<rparr>)\<rparr>)"
  using assms by (cases "pending w") (simp_all add: sys_lseek_def Let_def tick_simps)

lemma sys_lseek_neg:
  assumes "fdtab w fd = Some d" and "\<forall>e. pending w \<noteq> Fail e" and "off < 0"
  shows "sys_lseek fd off w = (- 1, (tick (C_lseek fd off) w)\<lparr>errno := errno_val EINVAL\<rparr>)"
  using assms by (cases "pending w") (simp_all add: sys_lseek_def Let_def tick_simps)

lemma sys_lseek_badf:
  assumes "fdtab w fd = None" and "\<forall>e. pending w \<noteq> Fail e"
  shows "sys_lseek fd off w = (- 1, (tick (C_lseek fd off) w)\<lparr>errno := errno_val EBADF\<rparr>)"
  using assms by (cases "pending w") (simp_all add: sys_lseek_def Let_def tick_simps)

lemma seek_file_lseek:
  assumes "sys_lseek fd off w = (r, w1)"
  shows "seek_file fd off w =
     (if to_int r = - 1 then (errno w1, w1) else if to_int r > 0 then (0, w1) else (to_int r, w1))"
  unfolding seek_file_def Let_def assms split_beta fst_conv snd_conv by (rule refl)

lemma seek_file_Fail:
  assumes "pending w = Fail e"
  shows "seek_file fd off w = (errno_val e, (tick (C_lseek fd off) w)\<lparr>errno := errno_val e\<rparr>)"
  using seek_file_lseek [OF sys_lseek_Fail [OF assms]] by (simp add: to_int_minus1)

lemma seek_file_neg:
  assumes "fdtab w fd = Some d" and "\<forall>e. pending w \<noteq> Fail e" and "off < 0"
  shows "seek_file fd off w =
     (errno_val EINVAL, (tick (C_lseek fd off) w)\<lparr>errno := errno_val EINVAL\<rparr>)"
  using seek_file_lseek [OF sys_lseek_neg [OF assms]] by (simp add: to_int_minus1)

lemma seek_file_badf:
  assumes "fdtab w fd = None" and "\<forall>e. pending w \<noteq> Fail e"
  shows "seek_file fd off w =
     (errno_val EBADF, (tick (C_lseek fd off) w)\<lparr>errno := errno_val EBADF\<rparr>)"
  using seek_file_lseek [OF sys_lseek_badf [OF assms]] by (simp add: to_int_minus1)

lemma seek_file_ok:
  assumes "fdtab w fd = Some d" and "\<forall>e. pending w \<noteq> Fail e" and "0 \<le> off"
  shows "seek_file fd off w =
     (if to_int off = - 1 then errno w else if to_int off > 0 then 0 else to_int off,
      (tick (C_lseek fd off) w)\<lparr>fdtab := (fdtab w)(fd \<mapsto> d\<lparr>offs := nat off\<rparr>)\<rparr>)"
  using seek_file_lseek [OF sys_lseek_ok [OF assms]] by (simp add: tick_simps)

text \<open>A seek that reports success has set the offset.\<close>

lemma seek_file_zero:
  assumes "fdtab w fd = Some d" and "seek_file fd off w = (0, w1)"
  shows "0 \<le> off \<and> (\<forall>e. pending w \<noteq> Fail e)
       \<and> w1 = (tick (C_lseek fd off) w)\<lparr>fdtab := (fdtab w)(fd \<mapsto> d\<lparr>offs := nat off\<rparr>)\<rparr>"
proof (cases "\<exists>e. pending w = Fail e")
  case True
  then obtain e where "pending w = Fail e" ..
  from seek_file_Fail [OF this, of fd off] assms(2) errno_val_pos [of e] show ?thesis
    by simp
next
  case False
  then have nf: "\<forall>e. pending w \<noteq> Fail e" by simp
  show ?thesis
  proof (cases "off < 0")
    case True
    from seek_file_neg [OF assms(1) nf True] assms(2) show ?thesis by simp
  next
    case False
    then have "0 \<le> off" by simp
    from seek_file_ok [OF assms(1) nf this] assms(2) nf this show ?thesis
      by (auto split: if_splits)
  qed
qed


text \<open>Whatever a seek reports, it leaves the files alone, consumes one event, and either
  leaves the descriptor table alone or sets the offset asked for.\<close>

lemma seek_file_frame:
  assumes "fdtab w fd = Some d"
  shows "files (snd (seek_file fd off w)) = files w
       \<and> faults (snd (seek_file fd off w)) = tl (faults w)
       \<and> (fdtab (snd (seek_file fd off w)) = fdtab w
          \<or> fdtab (snd (seek_file fd off w)) = (fdtab w)(fd \<mapsto> d\<lparr>offs := nat off\<rparr>))"
proof (cases "\<exists>e. pending w = Fail e")
  case True
  then obtain e where "pending w = Fail e" ..
  from seek_file_Fail [OF this, of fd off] show ?thesis
    by (simp add: tick_simps)
next
  case False
  then have nf: "\<forall>e. pending w \<noteq> Fail e" by simp
  show ?thesis
  proof (cases "off < 0")
    case True
    from seek_file_neg [OF assms(1) nf True] show ?thesis by (simp add: tick_simps)
  next
    case False
    then have "0 \<le> off" by simp
    from seek_file_ok [OF assms(1) nf this] show ?thesis
      by (simp add: tick_simps)
  qed
qed

subsection \<open>The deep copy as a whole\<close>

lemma mem_tl: "x \<in> set (tl xs) \<Longrightarrow> x \<in> set xs"
  by (cases xs) auto

lemma sys_malloc_Fail:
  "pending w = Fail e \<Longrightarrow>
   sys_malloc n w = (False, (tick (C_malloc n) w)\<lparr>errno := errno_val ENOMEM\<rparr>)"
  by (simp add: sys_malloc_def)

lemma sys_malloc_ok:
  "\<forall>e. pending w \<noteq> Fail e \<Longrightarrow> sys_malloc n w = (True, tick (C_malloc n) w)"
  by (cases "pending w") (simp_all add: sys_malloc_def)

lemma deep_copy_seek1_fail:
  assumes "fst (seek_file sfd soff w) \<noteq> 0"
  shows "deep_copy_file_range_impl sfd dfd soff doff len bs w = Some (seek_file sfd soff w)"
  using assms by (cases "seek_file sfd soff w") (simp add: deep_copy_file_range_impl_def)

lemma deep_copy_seek2_fail:
  assumes "seek_file sfd soff w = (0, w1)" and "fst (seek_file dfd doff w1) \<noteq> 0"
  shows "deep_copy_file_range_impl sfd dfd soff doff len bs w = Some (seek_file dfd doff w1)"
  using assms by (cases "seek_file dfd doff w1") (simp add: deep_copy_file_range_impl_def)

lemma deep_copy_nomem:
  assumes "seek_file sfd soff w = (0, w1)" and "seek_file dfd doff w1 = (0, w2)"
    and "pending w2 = Fail e"
  shows "deep_copy_file_range_impl sfd dfd soff doff len bs w =
         Some (errno_val ENOMEM, (tick (C_malloc bs) w2)\<lparr>errno := errno_val ENOMEM\<rparr>)"
  using assms(1,2) by (simp add: deep_copy_file_range_impl_def sys_malloc_Fail [OF assms(3)])

lemma deep_copy_run:
  assumes "seek_file sfd soff w = (0, w1)" and "seek_file dfd doff w1 = (0, w2)"
    and "\<forall>e. pending w2 \<noteq> Fail e"
  shows "deep_copy_file_range_impl sfd dfd soff doff len bs w =
         (case copy_loop sfd dfd len bs (if len \<noteq> 0 then len else bs) 0 (tick (C_malloc bs) w2) of
            None \<Rightarrow> None
          | Some (rc', w4) \<Rightarrow> Some (rc', sys_free w4))"
  using assms(1,2) by (simp add: deep_copy_file_range_impl_def sys_malloc_ok [OF assms(3)])

lemma ofd_offs_same: "d\<lparr>offs := offs d\<rparr> = d"
  by simp

lemma deep_post_early:
  assumes "files w' = files w"
    and "fdtab w' sfd = Some (so\<lparr>offs := a\<rparr>)" and "fdtab w' dfd = Some (dd\<lparr>offs := b\<rparr>)"
    and "\<forall>fd. fd \<noteq> sfd \<longrightarrow> fd \<noteq> dfd \<longrightarrow> fdtab w' fd = fdtab w fd"
    and "r \<noteq> 0"
    and "r = fst (seek_file sfd soff w)
       \<or> (\<exists>w1. seek_file sfd soff w = (0, w1) \<and> r = fst (seek_file dfd doff w1))
       \<or> (r = errno_val ENOMEM \<and> (\<exists>e. Fail e \<in> set (faults w)))"
  shows "deep_post sfd dfd so dd soff doff len w r w'"
proof -
  have "files w' (inode dd)
           = store_at (if o_append w dfd then length (files w (inode dd)) else nat doff)
               (take 0 (drop (nat soff) (files w (inode so)))) (files w (inode dd))
         \<and> 0 \<le> length (files w (inode so)) - nat soff
         \<and> (r = 0 \<longrightarrow> 0 \<le> soff \<and> 0 \<le> doff
               \<and> fdtab w' sfd = Some (so\<lparr>offs := nat soff + 0\<rparr>)
               \<and> fdtab w' dfd = Some (dd\<lparr>offs :=
                    (if o_append w dfd \<and> 0 < (0::nat) then length (files w (inode dd)) else nat doff) + 0\<rparr>)
               \<and> (if len = 0 then 0 = length (files w (inode so)) - nat soff else 0 = len))"
    using assms(1,5) by (simp add: store_at_Nil)
  then have n: "\<exists>n. files w' (inode dd)
             = store_at (if o_append w dfd then length (files w (inode dd)) else nat doff)
               (take n (drop (nat soff) (files w (inode so)))) (files w (inode dd))
         \<and> n \<le> length (files w (inode so)) - nat soff
         \<and> (r = 0 \<longrightarrow> 0 \<le> soff \<and> 0 \<le> doff
               \<and> fdtab w' sfd = Some (so\<lparr>offs := nat soff + n\<rparr>)
               \<and> fdtab w' dfd = Some (dd\<lparr>offs :=
                    (if o_append w dfd \<and> 0 < n then length (files w (inode dd)) else nat doff) + n\<rparr>)
               \<and> (if len = 0 then n = length (files w (inode so)) - nat soff else n = len))"
    by (rule exI)
  show ?thesis
    unfolding deep_post_def
  proof (intro conjI)
    show "\<forall>k. k \<noteq> inode dd \<longrightarrow> files w' k = files w k"
      by (simp add: assms(1))
    show "\<forall>fd. fd \<noteq> sfd \<longrightarrow> fd \<noteq> dfd \<longrightarrow> fdtab w' fd = fdtab w fd"
      by (rule assms(4))
    show "\<exists>a. fdtab w' sfd = Some (so\<lparr>offs := a\<rparr>)"
      using assms(2) by (rule exI)
    show "\<exists>b. fdtab w' dfd = Some (dd\<lparr>offs := b\<rparr>)"
      using assms(3) by (rule exI)
    show "\<exists>n. files w' (inode dd)
             = store_at (if o_append w dfd then length (files w (inode dd)) else nat doff)
               (take n (drop (nat soff) (files w (inode so)))) (files w (inode dd))
         \<and> n \<le> length (files w (inode so)) - nat soff
         \<and> (r = 0 \<longrightarrow> 0 \<le> soff \<and> 0 \<le> doff
               \<and> fdtab w' sfd = Some (so\<lparr>offs := nat soff + n\<rparr>)
               \<and> fdtab w' dfd = Some (dd\<lparr>offs :=
                    (if o_append w dfd \<and> 0 < n then length (files w (inode dd)) else nat doff) + n\<rparr>)
               \<and> (if len = 0 then n = length (files w (inode so)) - nat soff else n = len))"
      by (rule n)
    show "r \<noteq> 0 \<longrightarrow>
         r = fst (seek_file sfd soff w)
       \<or> (\<exists>w1. seek_file sfd soff w = (0, w1) \<and> r = fst (seek_file dfd doff w1))
       \<or> (r = errno_val ENOMEM \<and> (\<exists>e. Fail e \<in> set (faults w)))
       \<or> (r = errno_val ERANGE \<and> len \<noteq> 0 \<and> length (files w (inode so)) - nat soff < len)
       \<or> (\<exists>e. e \<noteq> EINTR \<and> Fail e \<in> set (faults w) \<and> r = errno_val e)"
      using assms(6) by blast
  qed
qed


lemma deep_copy_effect:
  assumes so: "fdtab w sfd = Some so" and dd: "fdtab w dfd = Some dd"
    and ne: "inode so \<noteq> inode dd" and bs: "0 < bs"
  shows "\<exists>r w'. deep_copy_file_range_impl sfd dfd soff doff len bs w = Some (r, w')
           \<and> deep_post sfd dfd so dd soff doff len w r w'"
proof -
  have fdne: "sfd \<noteq> dfd"
    using so dd ne by auto
  obtain r1 w1 where s1: "seek_file sfd soff w = (r1, w1)"
    by (cases "seek_file sfd soff w")
  from seek_file_frame [OF so, of soff] s1
  have f1: "files w1 = files w" "faults w1 = tl (faults w)"
    "fdtab w1 = fdtab w \<or> fdtab w1 = (fdtab w)(sfd \<mapsto> so\<lparr>offs := nat soff\<rparr>)"
    by simp_all
  have a1: "\<exists>a. fdtab w1 sfd = Some (so\<lparr>offs := a\<rparr>)"
    using f1(3) so by (auto intro: exI [of _ "offs so"])
  have d1: "fdtab w1 dfd = Some dd"
    using f1(3) dd fdne by auto
  have o1: "\<forall>fd. fd \<noteq> sfd \<longrightarrow> fd \<noteq> dfd \<longrightarrow> fdtab w1 fd = fdtab w fd"
    using f1(3) by auto
  show ?thesis
  proof (cases "r1 = 0")
    case False
    have dc: "deep_copy_file_range_impl sfd dfd soff doff len bs w = Some (r1, w1)"
      using deep_copy_seek1_fail [of sfd soff w dfd doff len bs] False s1 by simp
    from a1 obtain a where a: "fdtab w1 sfd = Some (so\<lparr>offs := a\<rparr>)" ..
    have "deep_post sfd dfd so dd soff doff len w r1 w1"
      using f1(1) a _ o1 False
    proof (rule deep_post_early)
      show "fdtab w1 dfd = Some (dd\<lparr>offs := offs dd\<rparr>)" using d1 by simp
      show "r1 = fst (seek_file sfd soff w)
         \<or> (\<exists>w1. seek_file sfd soff w = (0, w1) \<and> r1 = fst (seek_file dfd doff w1))
         \<or> (r1 = errno_val ENOMEM \<and> (\<exists>e. Fail e \<in> set (faults w)))"
        using s1 by simp
    qed
    then show ?thesis
      unfolding dc by blast
  next
    case True
    then have s1z: "seek_file sfd soff w = (0, w1)"
      using s1 by simp
    from seek_file_zero [OF so s1z]
    have z1: "0 \<le> soff" "\<forall>e. pending w \<noteq> Fail e"
      "w1 = (tick (C_lseek sfd soff) w)\<lparr>fdtab := (fdtab w)(sfd \<mapsto> so\<lparr>offs := nat soff\<rparr>)\<rparr>"
      by simp_all
    have t1: "fdtab w1 = (fdtab w)(sfd \<mapsto> so\<lparr>offs := nat soff\<rparr>)"
      by (subst z1(3)) simp
    obtain r2 w2 where s2: "seek_file dfd doff w1 = (r2, w2)"
      by (cases "seek_file dfd doff w1")
    from seek_file_frame [OF d1, of doff] s2
    have f2: "files w2 = files w1" "faults w2 = tl (faults w1)"
      "fdtab w2 = fdtab w1 \<or> fdtab w2 = (fdtab w1)(dfd \<mapsto> dd\<lparr>offs := nat doff\<rparr>)"
      by simp_all
    have a2: "fdtab w2 sfd = Some (so\<lparr>offs := nat soff\<rparr>)"
      using f2(3) t1 fdne by auto
    have b2: "\<exists>b. fdtab w2 dfd = Some (dd\<lparr>offs := b\<rparr>)"
      using f2(3) d1 by (auto intro: exI [of _ "offs dd"])
    have o2: "\<forall>fd. fd \<noteq> sfd \<longrightarrow> fd \<noteq> dfd \<longrightarrow> fdtab w2 fd = fdtab w fd"
      using f2(3) t1 by auto
    have fl2: "files w2 = files w"
      using f2(1) f1(1) by simp
    show ?thesis
    proof (cases "r2 = 0")
      case False
      have dc: "deep_copy_file_range_impl sfd dfd soff doff len bs w = Some (r2, w2)"
        using deep_copy_seek2_fail [OF s1z, of dfd doff len bs] False s2 by simp
      from b2 obtain b where b: "fdtab w2 dfd = Some (dd\<lparr>offs := b\<rparr>)" ..
      have "deep_post sfd dfd so dd soff doff len w r2 w2"
        using fl2 a2 b o2 False
      proof (rule deep_post_early)
        show "r2 = fst (seek_file sfd soff w)
           \<or> (\<exists>w1. seek_file sfd soff w = (0, w1) \<and> r2 = fst (seek_file dfd doff w1))
           \<or> (r2 = errno_val ENOMEM \<and> (\<exists>e. Fail e \<in> set (faults w)))"
          using s1z s2 by simp
      qed
      then show ?thesis
        unfolding dc by blast
    next
      case True
      then have s2z: "seek_file dfd doff w1 = (0, w2)"
        using s2 by simp
      from seek_file_zero [OF d1 s2z]
      have z2: "0 \<le> doff"
        "w2 = (tick (C_lseek dfd doff) w1)\<lparr>fdtab := (fdtab w1)(dfd \<mapsto> dd\<lparr>offs := nat doff\<rparr>)\<rparr>"
        by simp_all
      have t2: "fdtab w2 = (fdtab w)(sfd \<mapsto> so\<lparr>offs := nat soff\<rparr>, dfd \<mapsto> dd\<lparr>offs := nat doff\<rparr>)"
        by (subst z2(2)) (simp add: t1)
      have j2: "faults w2 = tl (tl (faults w))"
        using f2(2) f1(2) by simp
      have ap1: "o_append w1 = o_append w"
        by (subst z1(3)) (simp add: tick_simps)
      have ap2: "o_append w2 = o_append w"
        by (subst z2(2)) (simp add: tick_simps ap1)
      show ?thesis
      proof (cases "\<exists>e. pending w2 = Fail e")
        case True
        then obtain e where e: "pending w2 = Fail e" ..
        define w3 where "w3 = (tick (C_malloc bs) w2)\<lparr>errno := errno_val ENOMEM\<rparr>"
        have dc: "deep_copy_file_range_impl sfd dfd soff doff len bs w = Some (errno_val ENOMEM, w3)"
          using deep_copy_nomem [OF s1z s2z e] by (simp add: w3_def)
        have "Fail e \<in> set (faults w2)"
          by (rule pending_Fail_mem [OF e])
        then have mem: "Fail e \<in> set (faults w)"
          unfolding j2 by (rule mem_tl [OF mem_tl])
        have "deep_post sfd dfd so dd soff doff len w (errno_val ENOMEM) w3"
        proof (rule deep_post_early)
          show "files w3 = files w" by (simp add: w3_def tick_simps fl2)
          show "fdtab w3 sfd = Some (so\<lparr>offs := nat soff\<rparr>)" by (simp add: w3_def tick_simps a2)
          show "fdtab w3 dfd = Some (dd\<lparr>offs := nat doff\<rparr>)" by (simp add: w3_def tick_simps t2)
          show "\<forall>fd. fd \<noteq> sfd \<longrightarrow> fd \<noteq> dfd \<longrightarrow> fdtab w3 fd = fdtab w fd"
            using o2 by (simp add: w3_def tick_simps)
          show "errno_val ENOMEM \<noteq> 0" by simp
          show "errno_val ENOMEM = fst (seek_file sfd soff w)
             \<or> (\<exists>w1. seek_file sfd soff w = (0, w1) \<and> errno_val ENOMEM = fst (seek_file dfd doff w1))
             \<or> (errno_val ENOMEM = errno_val ENOMEM \<and> (\<exists>e. Fail e \<in> set (faults w)))"
            using mem by blast
        qed
        then show ?thesis
          unfolding dc by blast
      next
        case False
        then have nf: "\<forall>e. pending w2 \<noteq> Fail e" by simp
        define w3 where "w3 = tick (C_malloc bs) w2"
        define so2 where "so2 = so\<lparr>offs := nat soff\<rparr>"
        define dd2 where "dd2 = dd\<lparr>offs := nat doff\<rparr>"
        define remain where "remain = (if len \<noteq> 0 then len else bs)"
        have w3: "files w3 = files w" "fdtab w3 = (fdtab w)(sfd \<mapsto> so2, dfd \<mapsto> dd2)"
          "faults w3 = tl (tl (tl (faults w)))" "o_append w3 = o_append w"
          by (simp_all add: w3_def tick_simps fl2 t2 j2 so2_def dd2_def ap2)
        define pos where "pos = (if o_append w dfd then length (files w (inode dd)) else nat doff)"
        have wp3: "write_pos w3 dfd dd2 = pos"
          by (simp add: write_pos_def w3 dd2_def pos_def)
        have s3: "fdtab w3 sfd = Some so2" and d3: "fdtab w3 dfd = Some dd2"
          using fdne by (simp_all add: w3)
        have ne3: "inode so2 \<noteq> inode dd2"
          using ne by (simp add: so2_def dd2_def)
        from copy_loop_effect [OF s3 d3 ne3 bs, of len remain] obtain r w4 n n' where L:
          "copy_loop sfd dfd len bs remain 0 w3 = Some (r, w4)"
          "loop_post sfd dfd so2 dd2 len remain w3 r w4 n n'"
          by blast
        have dc: "deep_copy_file_range_impl sfd dfd soff doff len bs w = Some (r, sys_free w4)"
          using deep_copy_run [OF s1z s2z nf, of len bs] L(1) by (simp add: w3_def remain_def)
        have sub: "\<And>e. Fail e \<in> set (faults w3) \<Longrightarrow> Fail e \<in> set (faults w)"
          unfolding w3(3) by (rule mem_tl [OF mem_tl [OF mem_tl]])
        have P: "files w4 = (files w)(inode dd :=
                    store_at pos (take n (drop (nat soff) (files w (inode so)))) (files w (inode dd)))"
          "fdtab w4 = (fdtab w)(sfd \<mapsto> so\<lparr>offs := nat soff + n'\<rparr>,
                                dfd \<mapsto> dd\<lparr>offs := (if n = 0 then nat doff else pos + n)\<rparr>)"
          "n \<le> n'" "n' \<le> length (files w (inode so)) - nat soff"
          "r = 0 \<longrightarrow> n' = n \<and> (if len = 0 then length (files w (inode so)) \<le> nat soff + n else n = len)"
          "r \<noteq> 0 \<longrightarrow>
             (r = errno_val ERANGE \<and> len \<noteq> 0 \<and> length (files w (inode so)) - nat soff < len)
           \<or> (\<exists>e. e \<noteq> EINTR \<and> Fail e \<in> set (faults w3) \<and> r = errno_val e)"
          using L(2) bs unfolding loop_post_def wp3
          by (auto simp: w3 so2_def dd2_def remain_def fun_eq_iff split: if_splits)
        have "deep_post sfd dfd so dd soff doff len w r (sys_free w4)"
          unfolding deep_post_def
        proof (intro conjI)
          show "\<forall>k. k \<noteq> inode dd \<longrightarrow> files (sys_free w4) k = files w k"
            by (simp add: sys_free_def P(1))
          show "\<forall>fd. fd \<noteq> sfd \<longrightarrow> fd \<noteq> dfd \<longrightarrow> fdtab (sys_free w4) fd = fdtab w fd"
            by (simp add: sys_free_def P(2))
          show "\<exists>a. fdtab (sys_free w4) sfd = Some (so\<lparr>offs := a\<rparr>)"
            using fdne by (intro exI [of _ "nat soff + n'"]) (simp add: sys_free_def P(2))
          show "\<exists>b. fdtab (sys_free w4) dfd = Some (dd\<lparr>offs := b\<rparr>)"
            by (intro exI [of _ "if n = 0 then nat doff else pos + n"]) (simp add: sys_free_def P(2))
          show "\<exists>n. files (sys_free w4) (inode dd)
               = store_at (if o_append w dfd then length (files w (inode dd)) else nat doff)
                   (take n (drop (nat soff) (files w (inode so)))) (files w (inode dd))
             \<and> n \<le> length (files w (inode so)) - nat soff
             \<and> (r = 0 \<longrightarrow> 0 \<le> soff \<and> 0 \<le> doff
                   \<and> fdtab (sys_free w4) sfd = Some (so\<lparr>offs := nat soff + n\<rparr>)
                   \<and> fdtab (sys_free w4) dfd = Some (dd\<lparr>offs :=
                        (if o_append w dfd \<and> 0 < n then length (files w (inode dd)) else nat doff) + n\<rparr>)
                   \<and> (if len = 0 then n = length (files w (inode so)) - nat soff else n = len))"
            using P(3,4,5) z1(1) z2(1) fdne
            by (intro exI [of _ n]) (auto simp: sys_free_def P(1,2) pos_def)
          show "r \<noteq> 0 \<longrightarrow>
               r = fst (seek_file sfd soff w)
             \<or> (\<exists>w1. seek_file sfd soff w = (0, w1) \<and> r = fst (seek_file dfd doff w1))
             \<or> (r = errno_val ENOMEM \<and> (\<exists>e. Fail e \<in> set (faults w)))
             \<or> (r = errno_val ERANGE \<and> len \<noteq> 0 \<and> length (files w (inode so)) - nat soff < len)
             \<or> (\<exists>e. e \<noteq> EINTR \<and> Fail e \<in> set (faults w) \<and> r = errno_val e)"
            using P(6) sub by blast
        qed
        then show ?thesis
          unfolding dc by blast
      qed
    qed
  qed
qed

subsection \<open>The native clone attempt\<close>

lemma clone_file_impl_Fail:
  assumes "pending w = Fail e"
  shows "clone_file_impl sfd dfd w =
         (errno_val e, (tick (C_ficlone dfd sfd) w)\<lparr>errno := errno_val e\<rparr>)"
  using assms by (simp add: clone_file_impl_def sys_ficlone_def)

lemma clone_file_impl_badf:
  assumes "\<forall>e. pending w \<noteq> Fail e" and "fdtab w sfd = None \<or> fdtab w dfd = None"
  shows "clone_file_impl sfd dfd w =
         (errno_val EBADF, (tick (C_ficlone dfd sfd) w)\<lparr>errno := errno_val EBADF\<rparr>)"
  using assms
  by (cases "pending w"; cases "fdtab w sfd"; cases "fdtab w dfd")
     (simp_all add: clone_file_impl_def sys_ficlone_def)

lemma clone_file_impl_ok:
  assumes "\<forall>e. pending w \<noteq> Fail e" and "fdtab w sfd = Some so" and "fdtab w dfd = Some dd"
  shows "clone_file_impl sfd dfd w =
         (0, (tick (C_ficlone dfd sfd) w)\<lparr>files := (files w)(inode dd :=
               store_at 0 (files w (inode so)) (files w (inode dd)))\<rparr>)"
  using assms
  by (cases "pending w") (simp_all add: clone_file_impl_def sys_ficlone_def tick_simps)

text \<open>A failed whole-file clone attempt changes neither files nor descriptors.\<close>

lemma clone_file_impl_failed:
  assumes "fst (clone_file_impl sfd dfd w) \<noteq> 0"
  shows "files (snd (clone_file_impl sfd dfd w)) = files w
       \<and> fdtab (snd (clone_file_impl sfd dfd w)) = fdtab w
       \<and> faults (snd (clone_file_impl sfd dfd w)) = tl (faults w)
       \<and> calls (snd (clone_file_impl sfd dfd w)) = calls w @ [C_ficlone dfd sfd]"
proof (cases "\<exists>e. pending w = Fail e")
  case True
  then obtain e where "pending w = Fail e" ..
  from clone_file_impl_Fail [OF this] show ?thesis by (simp add: tick_simps)
next
  case False
  then have nf: "\<forall>e. pending w \<noteq> Fail e" by simp
  show ?thesis
  proof (cases "fdtab w sfd = None \<or> fdtab w dfd = None")
    case True
    from clone_file_impl_badf [OF nf True] show ?thesis by (simp add: tick_simps)
  next
    case False
    then obtain so dd where "fdtab w sfd = Some so" "fdtab w dfd = Some dd" by auto
    from clone_file_impl_ok [OF nf this] assms show ?thesis by simp
  qed
qed

lemma clone_file_range_impl_Fail:
  assumes "pending w = Fail e"
  shows "clone_file_range_impl sfd dfd soff doff len w =
         (errno_val e, (tick (C_ficlonerange dfd sfd soff len doff) w)\<lparr>errno := errno_val e\<rparr>)"
  using assms by (simp add: clone_file_range_impl_def sys_ficlonerange_def)

lemma clone_file_range_impl_badf:
  assumes "\<forall>e. pending w \<noteq> Fail e" and "fdtab w sfd = None \<or> fdtab w dfd = None"
  shows "clone_file_range_impl sfd dfd soff doff len w =
         (errno_val EBADF, (tick (C_ficlonerange dfd sfd soff len doff) w)\<lparr>errno := errno_val EBADF\<rparr>)"
  using assms
  by (cases "pending w"; cases "fdtab w sfd"; cases "fdtab w dfd")
     (simp_all add: clone_file_range_impl_def sys_ficlonerange_def)

lemma clone_file_range_impl_inval:
  assumes "\<forall>e. pending w \<noteq> Fail e" and "fdtab w sfd = Some so" and "fdtab w dfd = Some dd"
    and "soff < 0 \<or> doff < 0 \<or> length (files w (inode so)) < nat soff + len"
  shows "clone_file_range_impl sfd dfd soff doff len w =
         (errno_val EINVAL, (tick (C_ficlonerange dfd sfd soff len doff) w)\<lparr>errno := errno_val EINVAL\<rparr>)"
  using assms
  by (cases "pending w") (auto simp: clone_file_range_impl_def sys_ficlonerange_def Let_def)

lemma clone_file_range_impl_ok:
  assumes "\<forall>e. pending w \<noteq> Fail e" and "fdtab w sfd = Some so" and "fdtab w dfd = Some dd"
    and "0 \<le> soff" and "0 \<le> doff" and "nat soff + len \<le> length (files w (inode so))"
  shows "clone_file_range_impl sfd dfd soff doff len w =
         (0, (tick (C_ficlonerange dfd sfd soff len doff) w)\<lparr>files := (files w)(inode dd :=
               store_at (nat doff)
                 (if len = 0 then drop (nat soff) (files w (inode so))
                  else take len (drop (nat soff) (files w (inode so))))
                 (files w (inode dd)))\<rparr>)"
  using assms
  by (cases "pending w")
     (simp_all add: clone_file_range_impl_def sys_ficlonerange_def Let_def tick_simps)

lemma clone_file_range_impl_failed:
  assumes "fst (clone_file_range_impl sfd dfd soff doff len w) \<noteq> 0"
  shows "files (snd (clone_file_range_impl sfd dfd soff doff len w)) = files w
       \<and> fdtab (snd (clone_file_range_impl sfd dfd soff doff len w)) = fdtab w
       \<and> faults (snd (clone_file_range_impl sfd dfd soff doff len w)) = tl (faults w)
       \<and> calls (snd (clone_file_range_impl sfd dfd soff doff len w))
           = calls w @ [C_ficlonerange dfd sfd soff len doff]"
proof (cases "\<exists>e. pending w = Fail e")
  case True
  then obtain e where "pending w = Fail e" ..
  from clone_file_range_impl_Fail [OF this] show ?thesis by (simp add: tick_simps)
next
  case False
  then have nf: "\<forall>e. pending w \<noteq> Fail e" by simp
  show ?thesis
  proof (cases "fdtab w sfd = None \<or> fdtab w dfd = None")
    case True
    from clone_file_range_impl_badf [OF nf True] show ?thesis by (simp add: tick_simps)
  next
    case False
    then obtain so dd where o: "fdtab w sfd = Some so" "fdtab w dfd = Some dd" by auto
    show ?thesis
    proof (cases "soff < 0 \<or> doff < 0 \<or> length (files w (inode so)) < nat soff + len")
      case True
      from clone_file_range_impl_inval [OF nf o True] show ?thesis by (simp add: tick_simps)
    next
      case False
      then have "0 \<le> soff" "0 \<le> doff" "nat soff + len \<le> length (files w (inode so))"
        by simp_all
      from clone_file_range_impl_ok [OF nf o this] assms show ?thesis by simp
    qed
  qed
qed

text \<open>A ranged clone attempt that reports success has made the destination range read as the
  source range.\<close>

lemma clone_file_range_impl_succeeded:
  assumes "fdtab w sfd = Some so" and "fdtab w dfd = Some dd"
    and "clone_file_range_impl sfd dfd soff doff len w = (0, w1)"
  shows "0 \<le> soff \<and> 0 \<le> doff \<and> nat soff + len \<le> length (files w (inode so))
       \<and> fdtab w1 = fdtab w
       \<and> files w1 = (files w)(inode dd :=
               store_at (nat doff)
                 (if len = 0 then drop (nat soff) (files w (inode so))
                  else take len (drop (nat soff) (files w (inode so))))
                 (files w (inode dd)))"
proof (cases "\<exists>e. pending w = Fail e")
  case True
  then obtain e where "pending w = Fail e" ..
  from clone_file_range_impl_Fail [OF this, of sfd dfd soff doff len] assms(3) errno_val_pos [of e]
  show ?thesis by simp
next
  case False
  then have nf: "\<forall>e. pending w \<noteq> Fail e" by simp
  show ?thesis
  proof (cases "soff < 0 \<or> doff < 0 \<or> length (files w (inode so)) < nat soff + len")
    case True
    from clone_file_range_impl_inval [OF nf assms(1,2) True] assms(3) show ?thesis by simp
  next
    case False
    then have c: "0 \<le> soff" "0 \<le> doff" "nat soff + len \<le> length (files w (inode so))"
      by simp_all
    from clone_file_range_impl_ok [OF nf assms(1,2) c] assms(3) c show ?thesis
      by (auto simp: tick_simps)
  qed
qed

lemma clone_file_impl_succeeded:
  assumes "fdtab w sfd = Some so" and "fdtab w dfd = Some dd"
    and "clone_file_impl sfd dfd w = (0, w1)"
  shows "fdtab w1 = fdtab w
       \<and> files w1 = (files w)(inode dd := store_at 0 (files w (inode so)) (files w (inode dd)))"
proof (cases "\<exists>e. pending w = Fail e")
  case True
  then obtain e where "pending w = Fail e" ..
  from clone_file_impl_Fail [OF this, of sfd dfd] assms(3) errno_val_pos [of e]
  show ?thesis by simp
next
  case False
  then have nf: "\<forall>e. pending w \<noteq> Fail e" by simp
  from clone_file_impl_ok [OF nf assms(1,2)] assms(3) show ?thesis
    by (auto simp: tick_simps)
qed



subsection \<open>The exported functions\<close>

lemma qtm_clone_file_valid:
  assumes "0 \<le> sfd" and "0 \<le> dfd" and "fb \<longrightarrow> 0 < bs"
  shows "qtm_clone_file sfd dfd fb bs w =
     (if fst (clone_file_impl sfd dfd w) \<noteq> 0 \<and> fb
      then deep_copy_file_range_impl sfd dfd 0 0 0 bs (snd (clone_file_impl sfd dfd w))
      else Some (clone_file_impl sfd dfd w))"
  using assms by (cases "clone_file_impl sfd dfd w") (auto simp: qtm_clone_file_def)

lemma qtm_clone_file_range_valid:
  assumes "0 \<le> sfd" and "0 \<le> dfd" and "0 \<le> soff" and "0 \<le> doff" and "fb \<longrightarrow> 0 < bs"
  shows "qtm_clone_file_range sfd dfd soff doff len fb bs w =
     (if fst (clone_file_range_impl sfd dfd soff doff len w) \<noteq> 0 \<and> fb
      then deep_copy_file_range_impl sfd dfd soff doff len bs
             (snd (clone_file_range_impl sfd dfd soff doff len w))
      else Some (clone_file_range_impl sfd dfd soff doff len w))"
  using assms
  by (cases "clone_file_range_impl sfd dfd soff doff len w") (auto simp: qtm_clone_file_range_def)

subsection \<open>Further facts used for the claims\<close>

lemma ex_world_simps:
  "files (ex_world src dst evs) 1 = src"
  "files (ex_world src dst evs) (Suc 0) = src"
  "files (ex_world src dst evs) 2 = dst"
  "fdtab (ex_world src dst evs) 3 = Some \<lparr>inode = 1, offs = 0\<rparr>"
  "fdtab (ex_world src dst evs) 4 = Some \<lparr>inode = 2, offs = 0\<rparr>"
  "errno (ex_world src dst evs) = 0"
  "faults (ex_world src dst evs) = evs"
  "calls (ex_world src dst evs) = []"
  "\<not> o_append (ex_world src dst evs) fd"
  by (simp_all add: ex_world_def)



lemma pending_simps:
  "faults w = [] \<Longrightarrow> pending w = Ideal"
  "faults w = e # es \<Longrightarrow> pending w = e"
  by (simp_all add: pending_def)




lemma copy_loop_only_interrupts:
  assumes "fdtab w sfd = Some so" and "fdtab w dfd = Some dd" and "inode so \<noteq> inode dd"
    and "0 < bs" and "\<forall>e. Fail e \<in> set (faults w) \<longrightarrow> e = EINTR"
  shows "\<exists>r w'. copy_loop sfd dfd len bs remain 0 w = Some (r, w')
           \<and> (r = 0 \<or> r = errno_val ERANGE \<and> len \<noteq> 0
                        \<and> length (files w (inode so)) - offs so < remain)
           \<and> (r = 0 \<and> 0 < remain \<longrightarrow>
                 files w' (inode dd)
                   = store_at (write_pos w dfd dd)
                       (if len = 0 then drop (offs so) (files w (inode so))
                        else take remain (drop (offs so) (files w (inode so))))
                       (files w (inode dd))
               \<and> (len \<noteq> 0 \<longrightarrow> remain \<le> length (files w (inode so)) - offs so))"
proof -
  let ?S = "files w (inode so)"
  from copy_loop_effect [OF assms(1-4), of len remain] obtain r w' n n' where L:
    "copy_loop sfd dfd len bs remain 0 w = Some (r, w')"
    "loop_post sfd dfd so dd len remain w r w' n n'"
    by blast
  have a: "r = 0 \<or> r = errno_val ERANGE \<and> len \<noteq> 0 \<and> length ?S - offs so < remain"
    using L(2) assms(5) unfolding loop_post_def by blast
  have f: "files w' (inode dd)
             = store_at (write_pos w dfd dd) (take n (drop (offs so) ?S)) (files w (inode dd))"
    and n: "n \<le> length ?S - offs so"
    and z: "r = 0 \<longrightarrow> (if len = 0 then remain = 0 \<or> length ?S \<le> offs so + n else n = remain)"
    using L(2) unfolding loop_post_def by auto
  have b: "files w' (inode dd)
             = store_at (write_pos w dfd dd)
                 (if len = 0 then drop (offs so) ?S else take remain (drop (offs so) ?S))
                 (files w (inode dd))
         \<and> (len \<noteq> 0 \<longrightarrow> remain \<le> length ?S - offs so)"
    if "r = 0 \<and> 0 < remain"
  proof (cases "len = 0")
    case True
    with z that have "length ?S \<le> offs so + n" by simp
    then have "take n (drop (offs so) ?S) = drop (offs so) ?S" by simp
    with f True show ?thesis by simp
  next
    case False
    with z that have "n = remain" by simp
    with f n False show ?thesis by simp
  qed
  show ?thesis
    using L(1) a b by blast
qed

text \<open>How the loop goes on from the result of its \<^verbatim>\<open>read\<close>.\<close>

lemma copy_loop_intr:
  assumes "0 < remain" and "pending w = Fail EINTR"
  shows "copy_loop sfd dfd len bs remain rc w
       = copy_loop sfd dfd len bs remain rc
           ((tick (C_read sfd (min bs remain)) w)\<lparr>errno := errno_val EINTR\<rparr>)"
  by (simp add: copy_loop_step [OF assms(1)] copy_iter_intr [OF assms(2)])

lemma copy_loop_err:
  assumes "0 < remain" and "pending w = Fail e" and "e \<noteq> EINTR"
  shows "copy_loop sfd dfd len bs remain rc w
       = Some (errno_val e, (tick (C_read sfd (min bs remain)) w)\<lparr>errno := errno_val e\<rparr>)"
  by (simp add: copy_loop_step [OF assms(1)] copy_iter_err [OF assms(2,3)])

lemma copy_loop_data:
  assumes "0 < remain" and "sys_read sfd (min bs remain) w = ((k, got), w1)" and "0 < k"
  shows "copy_loop sfd dfd len bs remain rc w
       = (if fst (write_block dfd got w1) \<noteq> 0 then Some (write_block dfd got w1)
          else copy_loop sfd dfd len bs (if len \<noteq> 0 then remain - nat k else remain) 0
                 (snd (write_block dfd got w1)))"
  using assms(3) by (simp add: copy_loop_step [OF assms(1)] copy_iter_read [OF assms(2)])

text \<open>Whatever files the descriptors are open on: when interruptions are the only failures
  in store, a pass through the loop and the loop itself produce no error code but
  \<^verbatim>\<open>ERANGE\<close>.\<close>

lemma copy_iter_harmless:
  assumes o: "fdtab w sfd \<noteq> None" "fdtab w dfd \<noteq> None"
    and f: "\<forall>e. Fail e \<in> set (faults w) \<longrightarrow> e = EINTR"
    and rem: "0 < remain"
  shows "(\<exists>rc' w'. copy_iter sfd dfd len bs remain rc w = Break rc' w'
            \<and> (rc' = rc \<or> rc' = errno_val ERANGE \<and> len \<noteq> 0))
       \<or> (\<exists>remain' rc' w'. copy_iter sfd dfd len bs remain rc w = Continue remain' rc' w'
            \<and> (rc' = rc \<or> rc' = 0)
            \<and> fdtab w' sfd \<noteq> None \<and> fdtab w' dfd \<noteq> None
            \<and> (\<forall>e. Fail e \<in> set (faults w') \<longrightarrow> e = EINTR))"
proof (cases "\<exists>e. pending w = Fail e")
  case True
  then obtain e where e: "pending w = Fail e" ..
  from pending_Fail_mem [OF e] f have "e = EINTR" by blast
  with e have p: "pending w = Fail EINTR" by simp
  have "\<forall>e. Fail e \<in> set (tl (faults w)) \<longrightarrow> e = EINTR"
    using f by (blast dest: mem_tl)
  then show ?thesis
    using o by (simp add: copy_iter_intr [OF p] tick_simps)
next
  case False
  then have nf: "\<forall>e. pending w \<noteq> Fail e" by simp
  from o(1) obtain so where so: "fdtab w sfd = Some so" by blast
  define got where "got = take (limit (pending w) (min bs remain)) (drop (offs so) (files w (inode so)))"
  show ?thesis
  proof (cases "got = []")
    case True
    from copy_iter_eof [OF so nf True [unfolded got_def] rem, of dfd len rc]
    show ?thesis by auto
  next
    case gne: False
    define w1 where "w1 = (tick (C_read sfd (min bs remain)) w)
                \<lparr>fdtab := (fdtab w)(sfd \<mapsto> so\<lparr>offs := offs so + length got\<rparr>)\<rparr>"
    have o1: "fdtab w1 sfd \<noteq> None" "fdtab w1 dfd \<noteq> None"
      using o(2) by (simp_all add: w1_def)
    then obtain dd where dd: "fdtab w1 dfd = Some dd" by blast
    have f1: "\<forall>e. Fail e \<in> set (faults w1) \<longrightarrow> e = EINTR"
      using f by (auto simp: w1_def tick_simps dest: mem_tl)
    define w2 where "w2 = snd (write_block dfd got w1)"
    from write_block_effect [OF dd, of got] obtain m where m:
      "fdtab w2 = (fdtab w1)(dfd \<mapsto> dd\<lparr>offs := (if m = 0 then offs dd else write_pos w1 dfd dd + m)\<rparr>)"
      "\<exists>j. faults w2 = drop j (faults w1)"
      "fst (write_block dfd got w1) \<noteq> 0 \<longrightarrow>
         (\<exists>e. e \<noteq> EINTR \<and> Fail e \<in> set (faults w1) \<and> fst (write_block dfd got w1) = errno_val e)"
      unfolding w2_def by blast
    have z: "fst (write_block dfd got w1) = 0"
      using m(3) f1 by blast
    have o2: "fdtab w2 sfd \<noteq> None" "fdtab w2 dfd \<noteq> None"
      using o1 by (simp_all add: m(1))
    have f2: "\<forall>e. Fail e \<in> set (faults w2) \<longrightarrow> e = EINTR"
      using f1 m(2) by (blast intro: set_of_drop)
    from copy_iter_data [OF so nf got_def gne w1_def, of dfd len rc] z
    have "copy_iter sfd dfd len bs remain rc w
          = Continue (if len \<noteq> 0 then remain - length got else remain) 0 w2"
      by (simp add: w2_def)
    then show ?thesis
      using o2 f2 by simp
  qed
qed

lemma copy_loop_harmless:
  assumes "copy_loop sfd dfd len bs remain rc w = Some y"
  shows "fdtab w sfd \<noteq> None \<and> fdtab w dfd \<noteq> None
           \<and> (\<forall>e. Fail e \<in> set (faults w) \<longrightarrow> e = EINTR) \<longrightarrow>
         fst y = rc \<or> fst y = 0 \<or> fst y = errno_val ERANGE \<and> len \<noteq> 0"
proof (rule copy_loop.raw_induct [where P = "\<lambda>sfd dfd len bs remain rc w y.
          fdtab w sfd \<noteq> None \<and> fdtab w dfd \<noteq> None
           \<and> (\<forall>e. Fail e \<in> set (faults w) \<longrightarrow> e = EINTR) \<longrightarrow>
          fst y = rc \<or> fst y = 0 \<or> fst y = errno_val ERANGE \<and> len \<noteq> 0", OF _ assms])
  fix f :: "int \<Rightarrow> int \<Rightarrow> nat \<Rightarrow> nat \<Rightarrow> nat \<Rightarrow> int \<Rightarrow> world \<Rightarrow> (int \<times> world) option"
    and sfd dfd len bs remain rc w y
  assume IH: "\<And>sfd dfd len bs remain rc w y. f sfd dfd len bs remain rc w = Some y \<Longrightarrow>
                fdtab w sfd \<noteq> None \<and> fdtab w dfd \<noteq> None
                 \<and> (\<forall>e. Fail e \<in> set (faults w) \<longrightarrow> e = EINTR) \<longrightarrow>
                fst y = rc \<or> fst y = 0 \<or> fst y = errno_val ERANGE \<and> len \<noteq> 0"
    and body: "(if 0 < remain
      then case copy_iter sfd dfd len bs remain rc w of
           Break rc' w' \<Rightarrow> Some (rc', w')
           | Continue remain' rc' w' \<Rightarrow> f sfd dfd len bs remain' rc' w'
      else Some (rc, w)) = Some y"
  show "fdtab w sfd \<noteq> None \<and> fdtab w dfd \<noteq> None
           \<and> (\<forall>e. Fail e \<in> set (faults w) \<longrightarrow> e = EINTR) \<longrightarrow>
         fst y = rc \<or> fst y = 0 \<or> fst y = errno_val ERANGE \<and> len \<noteq> 0"
  proof
    assume a: "fdtab w sfd \<noteq> None \<and> fdtab w dfd \<noteq> None
           \<and> (\<forall>e. Fail e \<in> set (faults w) \<longrightarrow> e = EINTR)"
    show "fst y = rc \<or> fst y = 0 \<or> fst y = errno_val ERANGE \<and> len \<noteq> 0"
    proof (cases "0 < remain")
      case False
      with body show ?thesis by auto
    next
      case True
      from a have o: "fdtab w sfd \<noteq> None" "fdtab w dfd \<noteq> None"
        and fl: "\<forall>e. Fail e \<in> set (faults w) \<longrightarrow> e = EINTR" by simp_all
      from copy_iter_harmless [OF o fl True, of len bs rc]
      consider (brk) rc' w' where "copy_iter sfd dfd len bs remain rc w = Break rc' w'"
          "rc' = rc \<or> rc' = errno_val ERANGE \<and> len \<noteq> 0"
        | (cont) remain' rc' w' where
          "copy_iter sfd dfd len bs remain rc w = Continue remain' rc' w'"
          "rc' = rc \<or> rc' = 0"
          "fdtab w' sfd \<noteq> None" "fdtab w' dfd \<noteq> None"
          "\<forall>e. Fail e \<in> set (faults w') \<longrightarrow> e = EINTR"
        by blast
      then show ?thesis
      proof cases
        case brk
        with body True show ?thesis by auto
      next
        case cont
        from body True cont(1) have "f sfd dfd len bs remain' rc' w' = Some y" by simp
        from IH [OF this] cont(3-5)
        have "fst y = rc' \<or> fst y = 0 \<or> fst y = errno_val ERANGE \<and> len \<noteq> 0"
          by blast
        with cont(2) show ?thesis by blast
      qed
    qed
  qed
qed

lemma write_block_full:
  assumes "fdtab w fd = Some d"
  shows "(fst (write_block fd blk w) = 0 \<longrightarrow>
            files (snd (write_block fd blk w)) (inode d)
              = store_at (write_pos w fd d) blk (files w (inode d)))
       \<and> (fst (write_block fd blk w) \<noteq> 0 \<longrightarrow>
            (\<exists>e. e \<noteq> EINTR \<and> Fail e \<in> set (faults w) \<and> fst (write_block fd blk w) = errno_val e))"
  using write_block_effect [OF assms, of blk] by auto

lemma sys_read_cases:
  assumes "sys_read fd n v = ((k, got), v1)"
  shows "(k = - 1 \<and> got = [] \<and> pending v = Fail EINTR \<and> errno v1 = errno_val EINTR)
       \<or> (k = - 1 \<and> got = [] \<and> errno v1 \<noteq> errno_val EINTR)
       \<or> (k = int (length got) \<and> length got \<le> n)"
proof (cases "\<exists>e. pending v = Fail e")
  case True
  then obtain e where e: "pending v = Fail e" ..
  from sys_read_Fail [OF e, of fd n] assms show ?thesis
    using e by (cases "e = EINTR") (auto simp: errno_val_eq_EINTR)
next
  case False
  then have nf: "\<forall>e. pending v \<noteq> Fail e" by simp
  show ?thesis
  proof (cases "fdtab v fd")
    case None
    from sys_read_badf [OF None nf, of n] assms show ?thesis by auto
  next
    case (Some d)
    have "length (take (limit (pending v) n) (drop (offs d) (files v (inode d)))) \<le> n"
      using limit_le [of "pending v" n] by simp
    with sys_read_ok [OF Some nf, of n] assms show ?thesis by auto
  qed
qed

lemma copy_iter_continue:
  assumes "len \<noteq> 0" and "0 < remain"
    and "copy_iter sfd dfd len bs remain rc v = Continue remain' rc' v1"
  shows "(pending v = Fail EINTR \<and> remain' = remain)
       \<or> (remain' < remain
          \<and> (\<exists>got. got \<noteq> [] \<and> fst (sys_read sfd (min bs remain) v) = (int (length got), got)
                    \<and> remain' = remain - length got))"
proof -
  obtain k got u where rd: "sys_read sfd (min bs remain) v = ((k, got), u)"
    by (metis prod.exhaust)
  note it = assms(3) [unfolded copy_iter_read [OF rd]]
  from sys_read_cases [OF rd] show ?thesis
  proof (elim disjE conjE)
    assume "k = - 1" "pending v = Fail EINTR" "errno u = errno_val EINTR"
    with it show ?thesis by simp
  next
    assume "k = - 1" "errno u \<noteq> errno_val EINTR"
    with it show ?thesis by simp
  next
    assume k: "k = int (length got)" and le: "length got \<le> min bs remain"
    show ?thesis
    proof (cases "got = []")
      case True
      with it k assms(1,2) show ?thesis by simp
    next
      case False
      then have "0 < length got" by simp
      with it k assms(1,2) le rd False show ?thesis
        by (auto split: if_splits)
    qed
  qed
qed




lemma clone_file_range_impl_frame:
  assumes "fdtab w sfd = Some so" and "fdtab w dfd = Some dd"
  shows "(\<forall>k. k \<noteq> inode dd \<longrightarrow> files (snd (clone_file_range_impl sfd dfd soff doff len w)) k = files w k)
       \<and> fdtab (snd (clone_file_range_impl sfd dfd soff doff len w)) = fdtab w"
proof (cases "fst (clone_file_range_impl sfd dfd soff doff len w) = 0")
  case True
  then have "clone_file_range_impl sfd dfd soff doff len w
           = (0, snd (clone_file_range_impl sfd dfd soff doff len w))"
    by (cases "clone_file_range_impl sfd dfd soff doff len w") simp
  from clone_file_range_impl_succeeded [OF assms this] show ?thesis by simp
next
  case False
  from clone_file_range_impl_failed [OF this] show ?thesis by simp
qed

lemma clone_file_impl_frame:
  assumes "fdtab w sfd = Some so" and "fdtab w dfd = Some dd"
  shows "(\<forall>k. k \<noteq> inode dd \<longrightarrow> files (snd (clone_file_impl sfd dfd w)) k = files w k)
       \<and> fdtab (snd (clone_file_impl sfd dfd w)) = fdtab w"
proof (cases "fst (clone_file_impl sfd dfd w) = 0")
  case True
  then have "clone_file_impl sfd dfd w = (0, snd (clone_file_impl sfd dfd w))"
    by (cases "clone_file_impl sfd dfd w") simp
  from clone_file_impl_succeeded [OF assms this] show ?thesis by simp
next
  case False
  from clone_file_impl_failed [OF this] show ?thesis by simp
qed




lemma qtm_total:
  assumes "fdtab w sfd = Some so" and "fdtab w dfd = Some dd" and "inode so \<noteq> inode dd"
  shows "(\<exists>res. qtm_clone_file sfd dfd fb bs w = Some res)
       \<and> (\<exists>res. qtm_clone_file_range sfd dfd soff doff len fb bs w = Some res)"
proof
  show "\<exists>res. qtm_clone_file sfd dfd fb bs w = Some res"
  proof (cases "sfd < 0 \<or> dfd < 0 \<or> (fb \<and> bs = 0)")
    case True
    then show ?thesis by (simp add: qtm_clone_file_def)
  next
    case False
    then have v: "0 \<le> sfd" "0 \<le> dfd" "fb \<longrightarrow> 0 < bs" by auto
    define w1 where "w1 = snd (clone_file_impl sfd dfd w)"
    have "fdtab w1 = fdtab w"
      using clone_file_impl_frame [OF assms(1,2)] by (simp add: w1_def)
    then have o1: "fdtab w1 sfd = Some so" "fdtab w1 dfd = Some dd"
      using assms(1,2) by simp_all
    show ?thesis
    proof (cases "fst (clone_file_impl sfd dfd w) \<noteq> 0 \<and> fb")
      case True
      then have "0 < bs" using v(3) by simp
      from deep_copy_effect [OF o1 assms(3) this, of 0 0 0] True show ?thesis
        unfolding qtm_clone_file_valid [OF v] w1_def by auto
    next
      case False
      then show ?thesis
        unfolding qtm_clone_file_valid [OF v] by auto
    qed
  qed
  show "\<exists>res. qtm_clone_file_range sfd dfd soff doff len fb bs w = Some res"
  proof (cases "sfd < 0 \<or> dfd < 0 \<or> soff < 0 \<or> doff < 0 \<or> (fb \<and> bs = 0)")
    case True
    then show ?thesis by (simp add: qtm_clone_file_range_def)
  next
    case False
    then have v: "0 \<le> sfd" "0 \<le> dfd" "0 \<le> soff" "0 \<le> doff" "fb \<longrightarrow> 0 < bs" by auto
    define w1 where "w1 = snd (clone_file_range_impl sfd dfd soff doff len w)"
    have "fdtab w1 = fdtab w"
      using clone_file_range_impl_frame [OF assms(1,2)] by (simp add: w1_def)
    then have o1: "fdtab w1 sfd = Some so" "fdtab w1 dfd = Some dd"
      using assms(1,2) by simp_all
    show ?thesis
    proof (cases "fst (clone_file_range_impl sfd dfd soff doff len w) \<noteq> 0 \<and> fb")
      case True
      then have "0 < bs" using v(5) by simp
      from deep_copy_effect [OF o1 assms(3) this, of soff doff len] True show ?thesis
        unfolding qtm_clone_file_range_valid [OF v] w1_def by auto
    next
      case False
      then show ?thesis
        unfolding qtm_clone_file_range_valid [OF v] by auto
    qed
  qed
qed




section \<open>The claims\<close>

subsection \<open>Whole-file clone through the fallback\<close>




subsection \<open>Range clone\<close>




subsection \<open>Premature end of the source\<close>




subsection \<open>Copy to the end of the source\<close>




subsection \<open>The fallback decision\<close>




subsection \<open>Argument validation\<close>

text \<open>
  Claim C6. With a negative source or destination descriptor, a negative source or destination
  offset (range operation), or the fallback requested with a block size of 0, both exported
  functions return \<^verbatim>\<open>EINVAL\<close> at once: the world they return is the world they were given, so
  no ioctl, seek, read, write or allocation has taken place (the log of calls is unchanged too).
\<close>

theorem validation_before_io:
  "(src_fd < 0 \<or> dst_fd < 0 \<or> (fallback_copy \<and> block_size = 0) \<longrightarrow>
      qtm_clone_file src_fd dst_fd fallback_copy block_size w = Some (errno_val EINVAL, w))
   \<and> (src_fd < 0 \<or> dst_fd < 0 \<or> src_offset < 0 \<or> dst_offset < 0
        \<or> (fallback_copy \<and> block_size = 0) \<longrightarrow>
      qtm_clone_file_range src_fd dst_fd src_offset dst_offset len fallback_copy block_size w
        = Some (errno_val EINVAL, w))"
  by (simp add: qtm_clone_file_def qtm_clone_file_range_def)

text \<open>
  The theorem at work (claim C6): a block size of 0 with the fallback, and a negative offset.
\<close>

theorem validation_before_io_witness:
  "(3 < (0::int) \<or> 4 < (0::int) \<or> (True \<and> (0::nat) = 0))
   \<and> qtm_clone_file 3 4 True 0 (ex_world [1, 2] [] []) = Some (22, ex_world [1, 2] [] [])
   \<and> (3 < (0::int) \<or> 4 < (0::int) \<or> (- 1) < (0::int) \<or> 0 < (0::int) \<or> (False \<and> (8::nat) = 0))
   \<and> qtm_clone_file_range 3 4 (- 1) 0 2 False 8 (ex_world [1, 2] [] [])
       = Some (22, ex_world [1, 2] [] [])"
  using validation_before_io [of 3 4 True 0 "ex_world [1, 2] [] []" "- 1" 0 2]
    validation_before_io [of 3 4 False 8 "ex_world [1, 2] [] []" "- 1" 0 2]
  by simp

subsection \<open>Seeking\<close>

text \<open>
  Claim C7 fails on the code for source offsets from 2 GiB on. \<^verbatim>\<open>seek_file\<close> stores the
  \<^verbatim>\<open>off_t\<close> that \<^verbatim>\<open>lseek\<close> returns in an \<^verbatim>\<open>int\<close>. Here the clone attempt has failed and
  the deep copy seeks the source to 2147483648: \<^verbatim>\<open>lseek\<close> succeeds and returns 2147483648,
  \<^verbatim>\<open>seek_file\<close> makes \<open>-2147483648\<close> of it, and the deep copy stops with that value before
  seeking the destination. No seek has failed, and the value is no error code.
\<close>

theorem seek_result_truncated:
  "fst (sys_lseek 3 2147483648 (snd (clone_file_range_impl 3 4 2147483648 0 0
          (ex_world [1, 2] [] [Fail EOPNOTSUPP])))) = 2147483648
   \<and> map_option fst (qtm_clone_file_range 3 4 2147483648 0 0 True 8
          (ex_world [1, 2] [] [Fail EOPNOTSUPP])) = Some (- 2147483648)
   \<and> map_option (calls \<circ> snd) (qtm_clone_file_range 3 4 2147483648 0 0 True 8
          (ex_world [1, 2] [] [Fail EOPNOTSUPP]))
       = Some [C_ficlonerange 4 3 2147483648 0 0, C_lseek 3 2147483648]"
proof -
  define w where "w = ex_world [1, 2] [] [Fail EOPNOTSUPP]"
  define w1 where "w1 = (tick (C_ficlonerange 4 3 2147483648 0 0) w)\<lparr>errno := errno_val EOPNOTSUPP\<rparr>"
  define w2 where "w2 = (tick (C_lseek 3 2147483648) w1)
       \<lparr>fdtab := (fdtab w1)(3 \<mapsto> \<lparr>inode = 1, offs = 0\<rparr>\<lparr>offs := nat 2147483648\<rparr>)\<rparr>"
  have p: "pending w = Fail EOPNOTSUPP"
    by (simp add: w_def pending_simps ex_world_simps)
  have c: "clone_file_range_impl 3 4 2147483648 0 0 w = (errno_val EOPNOTSUPP, w1)"
    unfolding w1_def by (rule clone_file_range_impl_Fail [OF p])
  have f1: "fdtab w1 3 = Some \<lparr>inode = 1, offs = 0\<rparr>"
    by (simp add: w1_def tick_simps w_def ex_world_simps)
  have p1: "\<forall>e. pending w1 \<noteq> Fail e"
    by (simp add: w1_def tick_simps w_def ex_world_simps pending_simps)
  have l: "sys_lseek 3 2147483648 w1 = (2147483648, w2)"
    unfolding w2_def by (rule sys_lseek_ok [OF f1 p1]) simp
  have t: "to_int 2147483648 = - 2147483648"
    by (simp add: to_int_def)
  have s: "seek_file 3 2147483648 w1 = (- 2147483648, w2)"
    using seek_file_lseek [OF l] by (simp add: t)
  have d: "deep_copy_file_range_impl 3 4 2147483648 0 0 8 w1 = Some (- 2147483648, w2)"
    using deep_copy_seek1_fail [of 3 2147483648 w1 4 0 0 8] by (simp add: s)
  have q: "qtm_clone_file_range 3 4 2147483648 0 0 True 8 w = Some (- 2147483648, w2)"
    using qtm_clone_file_range_valid [of 3 4 2147483648 0 True 8 0 w] by (simp add: c d)
  have k: "calls w2 = [C_ficlonerange 4 3 2147483648 0 0, C_lseek 3 2147483648]"
    by (simp add: w2_def w1_def tick_simps w_def ex_world_simps)
  show ?thesis
    unfolding w_def [symmetric] by (simp add: c l q k)
qed

subsection \<open>Interrupted calls and other errors\<close>

text \<open>
  Claim C8. In the loop, a \<^verbatim>\<open>read\<close> that fails with \<^verbatim>\<open>EINTR\<close> sends the loop round again
  with \<open>remain\<close> and the return code unchanged: the loop returns what it returns from the state
  the interrupted call left. A \<^verbatim>\<open>read\<close> that fails with another error ends the loop, which
  returns that error's code. In \<^verbatim>\<open>write_block\<close>, a \<^verbatim>\<open>write\<close> that fails with
  \<^verbatim>\<open>EINTR\<close> is repeated with the same block; one that fails with another error returns that
  error's code. \<^verbatim>\<open>write_block\<close> returns 0 only when the whole block is in the file, and
  another value only when a \<^verbatim>\<open>write\<close> failed with an error other than \<^verbatim>\<open>EINTR\<close>. After a
  \<^verbatim>\<open>read\<close> that returned data, the loop returns what \<^verbatim>\<open>write_block\<close> returns when that is
  not 0, and otherwise goes on from the state \<^verbatim>\<open>write_block\<close> left. And when interruptions are
  the only failures the environment has in store, the loop returns 0 (or \<^verbatim>\<open>ERANGE\<close> for a
  source that is too short), and with 0 all the bytes asked for are in the destination: an
  interruption alone never makes the copy fail, or lose data. Whatever files the two
  descriptors are open on, a loop that meets only interruptions and returns, returns the code
  it was started with (0, after the seeks), 0 or \<^verbatim>\<open>ERANGE\<close>.
\<close>

theorem interrupted_calls_retried:
  "(pending w = Fail EINTR \<longrightarrow>
      copy_iter src_fd dst_fd len block_size remain rc w
        = Continue remain rc
            ((tick (C_read src_fd (min block_size remain)) w)\<lparr>errno := errno_val EINTR\<rparr>)
    \<and> (0 < remain \<longrightarrow>
         copy_loop src_fd dst_fd len block_size remain rc w
           = copy_loop src_fd dst_fd len block_size remain rc
               ((tick (C_read src_fd (min block_size remain)) w)\<lparr>errno := errno_val EINTR\<rparr>)))
   \<and> (pending w = Fail e \<and> e \<noteq> EINTR \<longrightarrow>
      copy_iter src_fd dst_fd len block_size remain rc w
        = Break (errno_val e)
            ((tick (C_read src_fd (min block_size remain)) w)\<lparr>errno := errno_val e\<rparr>)
    \<and> (0 < remain \<longrightarrow>
         copy_loop src_fd dst_fd len block_size remain rc w
           = Some (errno_val e,
                   (tick (C_read src_fd (min block_size remain)) w)\<lparr>errno := errno_val e\<rparr>)))
   \<and> (p_block \<noteq> [] \<and> pending w = Fail EINTR \<longrightarrow>
      write_block dst_fd p_block w
        = write_block dst_fd p_block
            ((tick (C_write dst_fd (length p_block)) w)\<lparr>errno := errno_val EINTR\<rparr>))
   \<and> (p_block \<noteq> [] \<and> pending w = Fail e \<and> e \<noteq> EINTR \<longrightarrow>
      write_block dst_fd p_block w
        = (errno_val e, (tick (C_write dst_fd (length p_block)) w)\<lparr>errno := errno_val e\<rparr>))
   \<and> (\<forall>dd. fdtab w dst_fd = Some dd \<longrightarrow>
        (fst (write_block dst_fd p_block w) = 0 \<longrightarrow>
           files (snd (write_block dst_fd p_block w)) (inode dd)
             = store_at (write_pos w dst_fd dd) p_block (files w (inode dd)))
      \<and> (fst (write_block dst_fd p_block w) \<noteq> 0 \<longrightarrow>
           (\<exists>e'. e' \<noteq> EINTR \<and> Fail e' \<in> set (faults w)
                 \<and> fst (write_block dst_fd p_block w) = errno_val e')))
   \<and> (\<forall>k got w1. sys_read src_fd (min block_size remain) w = ((k, got), w1) \<and> 0 < k \<longrightarrow>
        (fst (write_block dst_fd got w1) \<noteq> 0 \<longrightarrow>
           copy_iter src_fd dst_fd len block_size remain rc w
             = Break (fst (write_block dst_fd got w1)) (snd (write_block dst_fd got w1))
         \<and> (0 < remain \<longrightarrow>
              copy_loop src_fd dst_fd len block_size remain rc w
                = Some (write_block dst_fd got w1)))
      \<and> (fst (write_block dst_fd got w1) = 0 \<and> 0 < remain \<longrightarrow>
           copy_loop src_fd dst_fd len block_size remain rc w
             = copy_loop src_fd dst_fd len block_size
                 (if len \<noteq> 0 then remain - nat k else remain) 0
                 (snd (write_block dst_fd got w1))))
   \<and> (\<forall>so dd. fdtab w src_fd = Some so \<and> fdtab w dst_fd = Some dd \<and> inode so \<noteq> inode dd
               \<and> 0 < block_size \<and> (\<forall>e'. Fail e' \<in> set (faults w) \<longrightarrow> e' = EINTR) \<longrightarrow>
        (\<exists>r w'. copy_loop src_fd dst_fd len block_size remain 0 w = Some (r, w')
              \<and> (r = 0 \<or> r = errno_val ERANGE \<and> len \<noteq> 0
                           \<and> length (files w (inode so)) - offs so < remain)
              \<and> (r = 0 \<and> 0 < remain \<longrightarrow>
                    files w' (inode dd)
                      = store_at (write_pos w dst_fd dd)
                          (if len = 0 then drop (offs so) (files w (inode so))
                           else take remain (drop (offs so) (files w (inode so))))
                          (files w (inode dd))
                  \<and> (len \<noteq> 0 \<longrightarrow> remain \<le> length (files w (inode so)) - offs so))))
   \<and> (\<forall>r w'. fdtab w src_fd \<noteq> None \<and> fdtab w dst_fd \<noteq> None
               \<and> (\<forall>e'. Fail e' \<in> set (faults w) \<longrightarrow> e' = EINTR)
               \<and> copy_loop src_fd dst_fd len block_size remain rc w = Some (r, w') \<longrightarrow>
        r = rc \<or> r = 0 \<or> r = errno_val ERANGE \<and> len \<noteq> 0)"
proof -
  have A: "copy_iter src_fd dst_fd len block_size remain rc w
        = Continue remain rc
            ((tick (C_read src_fd (min block_size remain)) w)\<lparr>errno := errno_val EINTR\<rparr>)
    \<and> (0 < remain \<longrightarrow>
         copy_loop src_fd dst_fd len block_size remain rc w
           = copy_loop src_fd dst_fd len block_size remain rc
               ((tick (C_read src_fd (min block_size remain)) w)\<lparr>errno := errno_val EINTR\<rparr>))"
    if "pending w = Fail EINTR"
    using copy_iter_intr [OF that] copy_loop_intr [OF _ that] by blast
  have B: "copy_iter src_fd dst_fd len block_size remain rc w
        = Break (errno_val e)
            ((tick (C_read src_fd (min block_size remain)) w)\<lparr>errno := errno_val e\<rparr>)
    \<and> (0 < remain \<longrightarrow>
         copy_loop src_fd dst_fd len block_size remain rc w
           = Some (errno_val e,
                   (tick (C_read src_fd (min block_size remain)) w)\<lparr>errno := errno_val e\<rparr>))"
    if "pending w = Fail e \<and> e \<noteq> EINTR"
  proof -
    from that have p: "pending w = Fail e" and n: "e \<noteq> EINTR" by simp_all
    show ?thesis
      using copy_iter_err [OF p n] copy_loop_err [OF _ p n] by blast
  qed
  have C: "write_block dst_fd p_block w
        = write_block dst_fd p_block
            ((tick (C_write dst_fd (length p_block)) w)\<lparr>errno := errno_val EINTR\<rparr>)"
    if "p_block \<noteq> [] \<and> pending w = Fail EINTR"
    using that by (simp add: write_block_intr)
  have D: "write_block dst_fd p_block w
        = (errno_val e, (tick (C_write dst_fd (length p_block)) w)\<lparr>errno := errno_val e\<rparr>)"
    if "p_block \<noteq> [] \<and> pending w = Fail e \<and> e \<noteq> EINTR"
    using that by (simp add: write_block_err)
  have E: "(fst (write_block dst_fd p_block w) = 0 \<longrightarrow>
           files (snd (write_block dst_fd p_block w)) (inode dd)
             = store_at (write_pos w dst_fd dd) p_block (files w (inode dd)))
      \<and> (fst (write_block dst_fd p_block w) \<noteq> 0 \<longrightarrow>
           (\<exists>e'. e' \<noteq> EINTR \<and> Fail e' \<in> set (faults w)
                 \<and> fst (write_block dst_fd p_block w) = errno_val e'))"
    if "fdtab w dst_fd = Some dd" for dd
    by (rule write_block_full [OF that])
  have F: "(fst (write_block dst_fd got w1) \<noteq> 0 \<longrightarrow>
           copy_iter src_fd dst_fd len block_size remain rc w
             = Break (fst (write_block dst_fd got w1)) (snd (write_block dst_fd got w1))
         \<and> (0 < remain \<longrightarrow>
              copy_loop src_fd dst_fd len block_size remain rc w
                = Some (write_block dst_fd got w1)))
      \<and> (fst (write_block dst_fd got w1) = 0 \<and> 0 < remain \<longrightarrow>
           copy_loop src_fd dst_fd len block_size remain rc w
             = copy_loop src_fd dst_fd len block_size
                 (if len \<noteq> 0 then remain - nat k else remain) 0
                 (snd (write_block dst_fd got w1)))"
    if "sys_read src_fd (min block_size remain) w = ((k, got), w1) \<and> 0 < k" for k got w1
  proof -
    from that have rd: "sys_read src_fd (min block_size remain) w = ((k, got), w1)"
      and k: "0 < k" by simp_all
    have i: "copy_iter src_fd dst_fd len block_size remain rc w
             = Break (fst (write_block dst_fd got w1)) (snd (write_block dst_fd got w1))"
      if "fst (write_block dst_fd got w1) \<noteq> 0"
      using copy_iter_read [OF rd, of dst_fd len rc] k that by simp
    have l: "copy_loop src_fd dst_fd len block_size remain rc w
             = (if fst (write_block dst_fd got w1) \<noteq> 0 then Some (write_block dst_fd got w1)
                else copy_loop src_fd dst_fd len block_size
                       (if len \<noteq> 0 then remain - nat k else remain) 0
                       (snd (write_block dst_fd got w1)))"
      if "0 < remain"
      by (rule copy_loop_data [OF that rd k])
    show ?thesis
      using i l by simp
  qed
  have G: "\<exists>r w'. copy_loop src_fd dst_fd len block_size remain 0 w = Some (r, w')
              \<and> (r = 0 \<or> r = errno_val ERANGE \<and> len \<noteq> 0
                           \<and> length (files w (inode so)) - offs so < remain)
              \<and> (r = 0 \<and> 0 < remain \<longrightarrow>
                    files w' (inode dd)
                      = store_at (write_pos w dst_fd dd)
                          (if len = 0 then drop (offs so) (files w (inode so))
                           else take remain (drop (offs so) (files w (inode so))))
                          (files w (inode dd))
                  \<and> (len \<noteq> 0 \<longrightarrow> remain \<le> length (files w (inode so)) - offs so))"
    if "fdtab w src_fd = Some so \<and> fdtab w dst_fd = Some dd \<and> inode so \<noteq> inode dd
               \<and> 0 < block_size \<and> (\<forall>e'. Fail e' \<in> set (faults w) \<longrightarrow> e' = EINTR)" for so dd
    using copy_loop_only_interrupts [of w src_fd so dst_fd dd block_size len remain] that
    by blast
  have H: "r = rc \<or> r = 0 \<or> r = errno_val ERANGE \<and> len \<noteq> 0"
    if "fdtab w src_fd \<noteq> None \<and> fdtab w dst_fd \<noteq> None
               \<and> (\<forall>e'. Fail e' \<in> set (faults w) \<longrightarrow> e' = EINTR)
               \<and> copy_loop src_fd dst_fd len block_size remain rc w = Some (r, w')" for r w'
    using copy_loop_harmless [of src_fd dst_fd len block_size remain rc w "(r, w')"] that
    by simp
  show ?thesis
    using A B C D E F G H by blast
qed

text \<open>
  The theorem at work (claim C8): an interrupted and a failed \<^verbatim>\<open>read\<close> and \<^verbatim>\<open>write\<close>, in
  the loop body and in the loop; a block written in two pieces after an interruption; a
  \<^verbatim>\<open>write\<close> that fails after a \<^verbatim>\<open>read\<close> that returned 2 bytes, whose error code the loop
  returns; and a copy through three interruptions that returns 0 with the 3 bytes of the
  source in the destination.
\<close>

theorem interrupted_calls_retried_witness:
  "pending (ex_world [1, 2, 3] [] [Fail EINTR]) = Fail EINTR
   \<and> copy_iter 3 4 0 2 2 0 (ex_world [1, 2, 3] [] [Fail EINTR])
       = Continue 2 0 ((tick (C_read 3 2) (ex_world [1, 2, 3] [] [Fail EINTR]))\<lparr>errno := 4\<rparr>)
   \<and> copy_loop 3 4 0 2 2 0 (ex_world [1, 2, 3] [] [Fail EINTR])
       = copy_loop 3 4 0 2 2 0 ((tick (C_read 3 2) (ex_world [1, 2, 3] [] [Fail EINTR]))\<lparr>errno := 4\<rparr>)
   \<and> write_block 4 [1, 2] (ex_world [1, 2, 3] [] [Fail EINTR])
       = write_block 4 [1, 2] ((tick (C_write 4 2) (ex_world [1, 2, 3] [] [Fail EINTR]))\<lparr>errno := 4\<rparr>)
   \<and> pending (ex_world [1, 2, 3] [] [Fail ENOSPC]) = Fail ENOSPC
   \<and> copy_iter 3 4 0 2 2 0 (ex_world [1, 2, 3] [] [Fail ENOSPC])
       = Break 28 ((tick (C_read 3 2) (ex_world [1, 2, 3] [] [Fail ENOSPC]))\<lparr>errno := 28\<rparr>)
   \<and> copy_loop 3 4 0 2 2 0 (ex_world [1, 2, 3] [] [Fail ENOSPC])
       = Some (28, (tick (C_read 3 2) (ex_world [1, 2, 3] [] [Fail ENOSPC]))\<lparr>errno := 28\<rparr>)
   \<and> write_block 4 [1, 2] (ex_world [1, 2, 3] [] [Fail ENOSPC])
       = (28, (tick (C_write 4 2) (ex_world [1, 2, 3] [] [Fail ENOSPC]))\<lparr>errno := 28\<rparr>)
   \<and> fst (write_block 4 [1, 2] (ex_world [1, 2, 3] [] [Fail EINTR, Short 0])) = 0
   \<and> files (snd (write_block 4 [1, 2] (ex_world [1, 2, 3] [] [Fail EINTR, Short 0]))) 2 = [1, 2]
   \<and> (\<exists>w'. copy_loop 3 4 0 2 2 0 (ex_world [1, 2, 3] [] [Ideal, Fail ENOSPC]) = Some (28, w')
          \<and> files w' 2 = [] \<and> calls w' = [C_read 3 2, C_write 4 2])
   \<and> (\<exists>w'. copy_loop 3 4 0 2 2 0
              (ex_world [1, 2, 3] [] [Fail EINTR, Ideal, Fail EINTR, Fail EINTR, Short 0])
            = Some (0, w')
          \<and> files w' 2 = [1, 2, 3])"
proof -
  define wi where "wi = ex_world [1, 2, 3] [] [Fail EINTR]"
  define we where "we = ex_world [1, 2, 3] [] [Fail ENOSPC]"
  define ws where "ws = ex_world [1, 2, 3] [] [Fail EINTR, Short 0]"
  define ww where "ww = ex_world [1, 2, 3] [] [Ideal, Fail ENOSPC]"
  define wl where "wl = ex_world [1, 2, 3] [] [Fail EINTR, Ideal, Fail EINTR, Fail EINTR, Short 0]"
  define so where "so = \<lparr>inode = 1, offs = 0\<rparr>"
  define dd where "dd = \<lparr>inode = 2, offs = 0\<rparr>"
  have pi: "pending wi = Fail EINTR" and pe: "pending we = Fail ENOSPC"
    by (simp_all add: wi_def we_def pending_simps ex_world_simps)
  have ne: "[1, 2] \<noteq> ([] :: byte list)" "ENOSPC \<noteq> EINTR" "(0::nat) < 2"
    by simp_all
  note Ti = interrupted_calls_retried [where w = wi and e = EINTR and src_fd = 3 and dst_fd = 4
      and len = 0 and block_size = 2 and remain = 2 and rc = 0 and p_block = "[1, 2]"]
  note Te = interrupted_calls_retried [where w = we and e = ENOSPC and src_fd = 3 and dst_fd = 4
      and len = 0 and block_size = 2 and remain = 2 and rc = 0 and p_block = "[1, 2]"]
  note Ts = interrupted_calls_retried [where w = ws and e = EINTR and src_fd = 3 and dst_fd = 4
      and len = 0 and block_size = 2 and remain = 2 and rc = 0 and p_block = "[1, 2]"]
  note Tw = interrupted_calls_retried [where w = ww and e = EINTR and src_fd = 3 and dst_fd = 4
      and len = 0 and block_size = 2 and remain = 2 and rc = 0 and p_block = "[1, 2]"]
  note Tl = interrupted_calls_retried [where w = wl and e = EINTR and src_fd = 3 and dst_fd = 4
      and len = 0 and block_size = 2 and remain = 2 and rc = 0 and p_block = "[1, 2]"]
  have a: "copy_iter 3 4 0 2 2 0 wi = Continue 2 0 ((tick (C_read 3 2) wi)\<lparr>errno := 4\<rparr>)"
    using Ti pi by simp
  have al: "copy_loop 3 4 0 2 2 0 wi = copy_loop 3 4 0 2 2 0 ((tick (C_read 3 2) wi)\<lparr>errno := 4\<rparr>)"
    using Ti pi ne(3) by simp
  have b: "write_block 4 [1, 2] wi = write_block 4 [1, 2] ((tick (C_write 4 2) wi)\<lparr>errno := 4\<rparr>)"
    using Ti pi ne by (simp add: numeral_2_eq_2)
  have c: "copy_iter 3 4 0 2 2 0 we = Break 28 ((tick (C_read 3 2) we)\<lparr>errno := 28\<rparr>)"
    using Te pe ne by simp
  have cl: "copy_loop 3 4 0 2 2 0 we = Some (28, (tick (C_read 3 2) we)\<lparr>errno := 28\<rparr>)"
    using Te pe ne by simp
  have d: "write_block 4 [1, 2] we = (28, (tick (C_write 4 2) we)\<lparr>errno := 28\<rparr>)"
    using Te pe ne by (simp add: numeral_2_eq_2)
  have z: "fst (write_block 4 [1, 2] ws) = 0"
    unfolding ws_def by code_simp
  have ds: "fdtab ws 4 = Some dd" "write_pos ws 4 dd = 0"
    by (simp_all add: ws_def dd_def ex_world_simps write_pos_def)
  have f: "files (snd (write_block 4 [1, 2] ws)) 2 = [1, 2]"
    using Ts ds z by (simp add: ws_def dd_def ex_world_simps store_at_def)
  define w1 where "w1 = (tick (C_read 3 2) ww)\<lparr>fdtab := (fdtab ww)(3 \<mapsto> so\<lparr>offs := 2\<rparr>)\<rparr>"
  have sw: "fdtab ww 3 = Some so" and pw: "\<forall>e. pending ww \<noteq> Fail e"
    and pd: "pending ww = Ideal" and fl: "files ww (Suc 0) = [1, 2, 3]"
    by (simp_all add: ww_def so_def ex_world_simps pending_simps)
  have gt: "take (limit (pending ww) (min 2 2)) (drop (offs so) (files ww (inode so))) = [1, 2]"
    by (simp add: pd fl limit_def so_def)
  have rd: "sys_read 3 (min 2 2) ww = ((2, [1, 2]), w1)"
    unfolding sys_read_ok [OF sw pw, of "min 2 2"] gt w1_def
    by (simp add: so_def numeral_2_eq_2)
  have p1: "pending w1 = Fail ENOSPC"
    by (simp add: w1_def ww_def tick_simps pending_simps ex_world_simps)
  have wb: "write_block 4 [1, 2] w1 = (28, (tick (C_write 4 (length [1, 2 :: byte])) w1)\<lparr>errno := 28\<rparr>)"
    using write_block_err [OF ne(1) p1 ne(2), of 4] by simp
  have "copy_loop 3 4 0 2 2 0 ww = Some (write_block 4 [1, 2] w1)"
    using Tw rd wb ne(3) by simp
  then have g: "\<exists>w'. copy_loop 3 4 0 2 2 0 ww = Some (28, w')
          \<and> files w' 2 = [] \<and> calls w' = [C_read 3 2, C_write 4 2]"
    unfolding wb by (simp add: w1_def ww_def tick_simps ex_world_simps)
  have ol: "fdtab wl 3 = Some so \<and> fdtab wl 4 = Some dd \<and> inode so \<noteq> inode dd \<and> (0::nat) < 2
            \<and> (\<forall>e'. Fail e' \<in> set (faults wl) \<longrightarrow> e' = EINTR)"
    by (simp add: wl_def so_def dd_def ex_world_simps)
  from Tl ol obtain r w' where l:
    "copy_loop 3 4 0 2 2 0 wl = Some (r, w')"
    "r = 0 \<and> (0::nat) < 2 \<longrightarrow>
       files w' (inode dd)
         = store_at (write_pos wl 4 dd)
             (if (0::nat) = 0 then drop (offs so) (files wl (inode so))
              else take 2 (drop (offs so) (files wl (inode so))))
             (files wl (inode dd))"
    by blast
  have "fdtab wl 3 \<noteq> None \<and> fdtab wl 4 \<noteq> None
            \<and> (\<forall>e'. Fail e' \<in> set (faults wl) \<longrightarrow> e' = EINTR)"
    using ol by simp
  with Tl l(1) have "r = 0 \<or> r = 0 \<or> r = errno_val ERANGE \<and> (0::nat) \<noteq> 0"
    by blast
  then have r0: "r = 0"
    by simp
  have "files w' 2 = [1, 2, 3]"
    using l(2) r0 by (simp add: wl_def so_def dd_def ex_world_simps write_pos_def store_at_def)
  with l(1) r0 have h: "\<exists>w'. copy_loop 3 4 0 2 2 0 wl = Some (0, w') \<and> files w' 2 = [1, 2, 3]"
    by blast
  show ?thesis
    using pi pe a al b c cl d z f g h unfolding wi_def we_def ws_def ww_def wl_def by simp
qed

subsection \<open>What a call may change\<close>




subsection \<open>Termination\<close>

text \<open>
  Claim C10, as the code has it. Let the two descriptors be open on different files and the
  block size be above 0; the environment interrupts or fails finitely many calls. Then the deep
  copy returns, and so do both exported functions. With a fixed length, a pass through the loop
  that goes round again either had its \<^verbatim>\<open>read\<close> interrupted, and then \<open>remain\<close> is unchanged,
  or has read at least one byte and made \<open>remain\<close> smaller by the number of bytes read. When
  copying to the end of the source, the pass in which \<^verbatim>\<open>read\<close> returns 0 bytes leaves the loop.
\<close>

theorem deep_copy_terminates:
  assumes "fdtab w src_fd = Some so" and "fdtab w dst_fd = Some dd" and "inode so \<noteq> inode dd"
    and "0 < block_size"
  shows "(\<exists>res. deep_copy_file_range_impl src_fd dst_fd src_offset dst_offset len block_size w
                  = Some res)
       \<and> (\<exists>res. qtm_clone_file src_fd dst_fd fallback_copy block_size w = Some res)
       \<and> (\<exists>res. qtm_clone_file_range src_fd dst_fd src_offset dst_offset len fallback_copy
                  block_size w = Some res)
       \<and> (\<forall>v remain rc remain' rc' v1.
             len \<noteq> 0 \<and> 0 < remain
             \<and> copy_iter src_fd dst_fd len block_size remain rc v = Continue remain' rc' v1 \<longrightarrow>
             (pending v = Fail EINTR \<and> remain' = remain)
           \<or> (remain' < remain
              \<and> (\<exists>got. got \<noteq> []
                     \<and> fst (sys_read src_fd (min block_size remain) v) = (int (length got), got)
                     \<and> remain' = remain - length got)))
       \<and> (\<forall>v remain rc got v1.
             sys_read src_fd (min block_size remain) v = ((0, got), v1) \<longrightarrow>
             copy_iter src_fd dst_fd 0 block_size remain rc v = Break rc v1)"
proof (intro conjI)
  show "\<exists>res. deep_copy_file_range_impl src_fd dst_fd src_offset dst_offset len block_size w
                  = Some res"
    using deep_copy_effect [OF assms, of src_offset dst_offset len] by blast
  show "\<exists>res. qtm_clone_file src_fd dst_fd fallback_copy block_size w = Some res"
    using qtm_total [OF assms(1-3)] by blast
  show "\<exists>res. qtm_clone_file_range src_fd dst_fd src_offset dst_offset len fallback_copy
                  block_size w = Some res"
    using qtm_total [OF assms(1-3)] by blast
  show "\<forall>v remain rc remain' rc' v1.
             len \<noteq> 0 \<and> 0 < remain
             \<and> copy_iter src_fd dst_fd len block_size remain rc v = Continue remain' rc' v1 \<longrightarrow>
             (pending v = Fail EINTR \<and> remain' = remain)
           \<or> (remain' < remain
              \<and> (\<exists>got. got \<noteq> []
                     \<and> fst (sys_read src_fd (min block_size remain) v) = (int (length got), got)
                     \<and> remain' = remain - length got))"
    using copy_iter_continue by blast
  show "\<forall>v remain rc got v1.
             sys_read src_fd (min block_size remain) v = ((0, got), v1) \<longrightarrow>
             copy_iter src_fd dst_fd 0 block_size remain rc v = Break rc v1"
    using copy_iter_read [of src_fd block_size _ _ 0 _ _ dst_fd 0] by simp
qed

text \<open>
  The theorem at work (claim C10): copies of a 3-byte source in blocks of 2.
\<close>

theorem deep_copy_terminates_witness:
  "fdtab (ex_world [1, 2, 3] [] []) 3 = Some \<lparr>inode = 1, offs = 0\<rparr>
   \<and> fdtab (ex_world [1, 2, 3] [] []) 4 = Some \<lparr>inode = 2, offs = 0\<rparr>
   \<and> (\<exists>res. deep_copy_file_range_impl 3 4 0 0 3 2 (ex_world [1, 2, 3] [] []) = Some res)
   \<and> (\<exists>res. deep_copy_file_range_impl 3 4 0 0 0 2 (ex_world [1, 2, 3] [] []) = Some res)
   \<and> (\<exists>rc' v1. copy_iter 3 4 3 2 3 0 (ex_world [1, 2, 3] [] []) = Continue 1 rc' v1)
   \<and> (\<exists>got. got \<noteq> []
          \<and> fst (sys_read 3 (min 2 3) (ex_world [1, 2, 3] [] [])) = (int (length got), got)
          \<and> 1 = 3 - length got)
   \<and> sys_read 3 (min 2 2) (ex_world [] [] []) = ((0, []), tick (C_read 3 2) (ex_world [] [] []))
   \<and> copy_iter 3 4 0 2 2 0 (ex_world [] [] []) = Break 0 (tick (C_read 3 2) (ex_world [] [] []))"
proof -
  define w where "w = ex_world [1, 2, 3] [] []"
  define so where "so = \<lparr>inode = 1, offs = 0\<rparr>"
  define dd where "dd = \<lparr>inode = 2, offs = 0\<rparr>"
  have o: "fdtab w 3 = Some so" "fdtab w 4 = Some dd" "inode so \<noteq> inode dd"
    by (simp_all add: w_def so_def dd_def ex_world_simps)
  have v: "(0::nat) < 2" by simp
  note T3 = deep_copy_terminates [OF o v, where len = 3 and src_offset = 0 and dst_offset = 0]
  note T0 = deep_copy_terminates [OF o v, where len = 0 and src_offset = 0 and dst_offset = 0]
  have a: "\<exists>res. deep_copy_file_range_impl 3 4 0 0 3 2 w = Some res"
    using T3 by blast
  have b: "\<exists>res. deep_copy_file_range_impl 3 4 0 0 0 2 w = Some res"
    using T0 by blast
  have "case copy_iter 3 4 3 2 3 0 w of Continue r _ _ \<Rightarrow> r = 1 | Break _ _ \<Rightarrow> False"
    unfolding w_def by code_simp
  then obtain rc' v1 where c: "copy_iter 3 4 3 2 3 0 w = Continue 1 rc' v1"
    by (cases "copy_iter 3 4 3 2 3 0 w") auto
  have np: "pending w \<noteq> Fail EINTR"
    by (simp add: w_def pending_simps ex_world_simps)
  have l: "(3::nat) \<noteq> 0 \<and> (0::nat) < 3" by simp
  from T3 c l have "(pending w = Fail EINTR \<and> (1::nat) = 3)
      \<or> ((1::nat) < 3 \<and> (\<exists>got. got \<noteq> []
             \<and> fst (sys_read 3 (min 2 3) w) = (int (length got), got) \<and> 1 = 3 - length got))"
    by blast
  with np have d: "\<exists>got. got \<noteq> []
          \<and> fst (sys_read 3 (min 2 3) w) = (int (length got), got) \<and> 1 = 3 - length got"
    by blast
  define u where "u = ex_world [] [] []"
  have fu: "fdtab u 3 = Some so" and pu: "\<forall>e. pending u \<noteq> Fail e"
    by (simp_all add: u_def so_def ex_world_simps pending_simps)
  have "(tick (C_read 3 2) u)\<lparr>fdtab := (fdtab u)(3 \<mapsto> so)\<rparr> = tick (C_read 3 2) u"
    using fu by (simp add: tick_def map_upd_same)
  then have rd: "sys_read 3 (min 2 2) u = ((0, []), tick (C_read 3 2) u)"
    using sys_read_ok [OF fu pu, of "min 2 2"] by (simp add: u_def so_def ex_world_simps)
  from T0 have e: "copy_iter 3 4 0 2 2 0 u = Break 0 (tick (C_read 3 2) u)"
    using rd by blast
  show ?thesis
    using o(1,2) a b c d rd e unfolding w_def u_def so_def dd_def by blast
qed

text \<open>
  Claim C10 as it was stated says that every pass that does not leave the loop reads at least
  one byte. A pass whose \<^verbatim>\<open>read\<close> is interrupted goes round again with \<open>remain\<close> still 2 and
  the source descriptor where it was.
\<close>

theorem interrupted_pass_makes_no_progress:
  "copy_iter 3 4 2 8 2 0 (ex_world [1, 2] [] [Fail EINTR])
     = Continue 2 0 ((tick (C_read 3 2) (ex_world [1, 2] [] [Fail EINTR]))\<lparr>errno := 4\<rparr>)
   \<and> fdtab ((tick (C_read 3 2) (ex_world [1, 2] [] [Fail EINTR]))\<lparr>errno := 4\<rparr>) 3
       = fdtab (ex_world [1, 2] [] [Fail EINTR]) 3"
proof -
  have p: "pending (ex_world [1, 2] [] [Fail EINTR]) = Fail EINTR"
    by (simp add: pending_simps ex_world_simps)
  show ?thesis
    using copy_iter_intr [OF p, of 3 4 2 8 2 0] by (simp add: tick_simps)
qed

end
